theory Spec2Isabelle
  imports Complex_Main
begin

section \<open>Values of the source language\<close>

text \<open>
  The repository is JavaScript. A number is either a finite value or \<open>NaN\<close>; finite
  values are kept as exact rationals, so the rounding of IEEE doubles and the two
  infinities are outside the model. A text is a \<open>string\<close>; the model is exact for
  ASCII text, and a character at or above 128 stands for a code unit that is neither
  white space nor a letter with a case.
\<close>

datatype jsnum = Num rat | NaN

fun isNaN :: "jsnum \<Rightarrow> bool" where
  "isNaN NaN = True"
| "isNaN (Num _) = False"

text \<open>\<open>a + b\<close> and \<open>a <= b\<close> on numbers: \<open>NaN\<close> is absorbing for the sum and makes
  every comparison false.\<close>

fun js_add :: "jsnum \<Rightarrow> jsnum \<Rightarrow> jsnum" where
  "js_add (Num a) (Num b) = Num (a + b)"
| "js_add _ _ = NaN"

fun js_le :: "jsnum \<Rightarrow> jsnum \<Rightarrow> bool" where
  "js_le (Num a) (Num b) = (a \<le> b)"
| "js_le _ _ = False"

fun js_ge :: "jsnum \<Rightarrow> jsnum \<Rightarrow> bool" where
  "js_ge (Num a) (Num b) = (b \<le> a)"
| "js_ge _ _ = False"

text \<open>The values an option of the \<open>Validator\<close> constructor can hold: absent
  (\<open>undefined\<close>), \<open>null\<close>, a boolean or a number. Strings and objects as option
  values are not modelled.\<close>

datatype jsval = Undefined | Null | Boolean bool | Number jsnum

fun truthy :: "jsval \<Rightarrow> bool" where
  "truthy Undefined = False"
| "truthy Null = False"
| "truthy (Boolean b) = b"
| "truthy (Number NaN) = False"
| "truthy (Number (Num r)) = (r \<noteq> 0)"

text \<open>\<open>a || b\<close>: the left operand when it is truthy, the right one otherwise.\<close>

definition js_or :: "jsval \<Rightarrow> jsval \<Rightarrow> jsval" where
  "js_or a b = (if truthy a then a else b)"

text \<open>The conversion to a number that \<open>>=\<close> applies to its operands.\<close>

fun toNumber :: "jsval \<Rightarrow> jsnum" where
  "toNumber Undefined = NaN"
| "toNumber Null = Num 0"
| "toNumber (Boolean b) = Num (if b then 1 else 0)"
| "toNumber (Number n) = n"

section \<open>Characters and strings\<close>

definition is_space :: "char \<Rightarrow> bool" where
  "is_space c = (c \<in> set [CHR 0x09, CHR 0x0A, CHR 0x0B, CHR 0x0C, CHR 0x0D, CHR '' ''])"

definition is_digit :: "char \<Rightarrow> bool" where
  "is_digit c = (c \<in> set ''0123456789'')"

definition newline :: char where
  "newline = CHR 0x0A"

text \<open>\<open>String.prototype.trim\<close>: white space removed at both ends.\<close>

definition trim :: "string \<Rightarrow> string" where
  "trim s = rev (dropWhile is_space (rev (dropWhile is_space s)))"

text \<open>\<open>toUpperCase\<close> on ASCII letters.\<close>

definition upper_char :: "char \<Rightarrow> char" where
  "upper_char c =
     (case map_of (zip ''abcdefghijklmnopqrstuvwxyz'' ''ABCDEFGHIJKLMNOPQRSTUVWXYZ'') c of
        None \<Rightarrow> c
      | Some u \<Rightarrow> u)"

definition toUpperCase :: "string \<Rightarrow> string" where
  "toUpperCase s = map upper_char s"

text \<open>The decimal rendering of an integer, as string interpolation prints it.\<close>

definition digit_char :: "nat \<Rightarrow> char" where
  "digit_char d = ''0123456789'' ! d"

fun show_nat :: "nat \<Rightarrow> string" where
  "show_nat n = (if n < 10 then [digit_char n] else show_nat (n div 10) @ [digit_char (n mod 10)])"

declare show_nat.simps [simp del]

definition show_int :: "int \<Rightarrow> string" where
  "show_int i = (if i < 0 then CHR ''-'' # show_nat (nat (- i)) else show_nat (nat i))"

section \<open>Data model\<close>

text \<open>
  Field names carry a prefix per record, since a field name is a constant of the whole
  theory: \<open>x_\<close> for a reference row of the spreadsheet, \<open>bc_\<close> for an item extracted from
  the document, \<open>ed_\<close> for the copy of the row kept in a result, \<open>v_\<close> for the
  statuses and \<open>r_\<close> for a validation result. The fields \<open>qtyToCheck\<close>,
  \<open>isDuplicate\<close> and \<open>duplicateCount\<close> are absent (\<open>None\<close>) on a row as the
  spreadsheet reader makes it.
\<close>

record excel_item =
  x_rowNumber :: nat
  x_itemCode :: string
  x_itemName :: string
  x_qty :: jsnum
  x_ajuNumber :: string
  x_seriBarang :: int
  qtyToCheck :: "jsnum option"
  isDuplicate :: "bool option"
  duplicateCount :: "nat option"

record bc_item =
  bc_seri :: int
  bc_kodeBrg :: string
  bc_uraian :: string
  bc_qty :: jsnum
  bc_satuan :: string

datatype status = OK | ERROR | NOT_MATCH | OVER_LIMIT | WARNING

text \<open>An issue is kept as the data its message is rendered from.\<close>

datatype issue =
    SeriNotFound int
  | ItemCodeSimilar rat
  | ItemCodeMismatch string string
  | InvalidQty
  | QtyOverLimit jsnum jsnum

record excel_data =
  ed_itemCode :: string
  ed_itemName :: string
  ed_qty :: jsnum
  ed_seriBarang :: int

record validation =
  v_itemCode :: "status option"
  v_qty :: "status option"
  v_overall :: "status option"

record validation_result =
  r_rowNumber :: nat
  r_excelData :: excel_data
  r_bcData :: "bc_item option"
  r_validation :: validation
  r_issues :: "issue list"

record validator_options =
  nameSimilarityThreshold :: jsval
  allowMultiItemSameSeri :: jsval
  strictMode :: jsval

section \<open>Validator\<close>

text \<open>The constructor: \<open>options.nameSimilarityThreshold || 0.75\<close>,
  \<open>options.allowMultiItemSameSeri !== false\<close>, \<open>options.strictMode || false\<close>.\<close>

definition Validator :: "validator_options \<Rightarrow> validator_options" where
  "Validator options =
     \<lparr> nameSimilarityThreshold = js_or (nameSimilarityThreshold options) (Number (Num (3/4))),
       allowMultiItemSameSeri = Boolean (allowMultiItemSameSeri options \<noteq> Boolean False),
       strictMode = js_or (strictMode options) (Boolean False) \<rparr>"

text \<open>The result of one field check: status and message.\<close>

type_synonym field_check = "status \<times> issue option"

text \<open>
  \<open>validateItemCode\<close>. The similarity score comes from the package
  \<open>string-similarity\<close>, which is not part of the repository: \<open>compareTwoStrings\<close> is a
  parameter.
\<close>

definition validateItemCode ::
  "(string \<Rightarrow> string \<Rightarrow> rat) \<Rightarrow> validator_options \<Rightarrow> string \<Rightarrow> string \<Rightarrow> field_check" where
  "validateItemCode compareTwoStrings opts excelCode bcCode =
     (let excelNorm = toUpperCase (trim excelCode);
          bcNorm = toUpperCase (trim bcCode)
      in if excelNorm = bcNorm then (OK, None)
         else let similarity = compareTwoStrings excelNorm bcNorm
              in if js_ge (Num similarity) (toNumber (nameSimilarityThreshold opts))
                 then (OK, Some (ItemCodeSimilar similarity))
                 else (NOT_MATCH, Some (ItemCodeMismatch excelCode bcCode)))"

text \<open>\<open>validateQty\<close>. Both arguments are numbers already, on which \<open>parseFloat\<close>
  is the identity.\<close>

definition validateQty :: "jsnum \<Rightarrow> jsnum \<Rightarrow> field_check" where
  "validateQty excelQty bcQty =
     (let excelNum = excelQty; bcNum = bcQty
      in if isNaN excelNum \<or> isNaN bcNum then (ERROR, Some InvalidQty)
         else if js_le excelNum bcNum then (OK, None)
         else (OVER_LIMIT, Some (QtyOverLimit excelNum bcNum)))"

definition issue_list :: "issue option \<Rightarrow> issue list" where
  "issue_list m = (case m of None \<Rightarrow> [] | Some i \<Rightarrow> [i])"

text \<open>
  \<open>validateItem\<close>. With the fields typed as above nothing in the body throws, so the
  \<open>catch\<close> branch of the source is not reachable in the model.
\<close>

definition validateItem ::
  "(string \<Rightarrow> string \<Rightarrow> rat) \<Rightarrow> validator_options \<Rightarrow> excel_item \<Rightarrow> bc_item option
     \<Rightarrow> validation_result" where
  "validateItem compareTwoStrings opts excelItem bcItem =
     (let excelData = \<lparr> ed_itemCode = x_itemCode excelItem, ed_itemName = x_itemName excelItem,
                         ed_qty = x_qty excelItem, ed_seriBarang = x_seriBarang excelItem \<rparr>
      in case bcItem of
           None \<Rightarrow>
             \<lparr> r_rowNumber = x_rowNumber excelItem, r_excelData = excelData, r_bcData = None,
               r_validation = \<lparr> v_itemCode = Some ERROR, v_qty = Some ERROR, v_overall = Some ERROR \<rparr>,
               r_issues = [SeriNotFound (x_seriBarang excelItem)] \<rparr>
         | Some bc \<Rightarrow>
             (let itemCodeValidation =
                    validateItemCode compareTwoStrings opts (x_itemCode excelItem) (bc_kodeBrg bc);
                  qtyValidation = validateQty (x_qty excelItem) (bc_qty bc);
                  overall =
                    (if fst itemCodeValidation = OK \<and> fst qtyValidation = OK then OK
                     else if fst itemCodeValidation = ERROR \<or> fst qtyValidation = ERROR then ERROR
                     else WARNING)
              in \<lparr> r_rowNumber = x_rowNumber excelItem, r_excelData = excelData,
                   r_bcData = Some bc,
                   r_validation = \<lparr> v_itemCode = Some (fst itemCodeValidation),
                                     v_qty = Some (fst qtyValidation),
                                     v_overall = Some overall \<rparr>,
                   r_issues = issue_list (snd itemCodeValidation) @ issue_list (snd qtyValidation) \<rparr>))"

text \<open>
  \<open>processDuplicateSeri\<close>. The object \<open>groups\<close> is an association list in insertion
  order, which is the order \<open>Object.keys\<close> lists such keys in (a key holds an
  underscore, so it is never an array index).
\<close>

definition group_key :: "excel_item \<Rightarrow> string" where
  "group_key item = x_ajuNumber item @ ''_'' @ show_int (x_seriBarang item)"

fun push_group ::
  "string \<Rightarrow> excel_item \<Rightarrow> (string \<times> excel_item list) list \<Rightarrow> (string \<times> excel_item list) list" where
  "push_group key item [] = [(key, [item])]"
| "push_group key item ((k, g) # groups) =
     (if k = key then (k, g @ [item]) # groups else (k, g) # push_group key item groups)"

definition group_items :: "excel_item list \<Rightarrow> (string \<times> excel_item list) list" where
  "group_items items = foldl (\<lambda>groups item. push_group (group_key item) item groups) [] items"

definition process_group :: "excel_item list \<Rightarrow> excel_item list" where
  "process_group grp =
     (case grp of
        [single] \<Rightarrow> [single\<lparr> qtyToCheck := Some (x_qty single), isDuplicate := Some False \<rparr>]
      | _ \<Rightarrow>
          (let totalQty = foldl (\<lambda>sum item. js_add sum (x_qty item)) (Num 0) grp
           in map (\<lambda>item. item\<lparr> qtyToCheck := Some totalQty, isDuplicate := Some True,
                                  duplicateCount := Some (length grp) \<rparr>) grp))"

definition processDuplicateSeri :: "validator_options \<Rightarrow> excel_item list \<Rightarrow> excel_item list" where
  "processDuplicateSeri opts items =
     (if \<not> truthy (allowMultiItemSameSeri opts) then items
      else concat (map (\<lambda>(key, grp). process_group grp) (group_items items)))"

text \<open>\<open>PDFParser.findBySeri\<close>: the first extracted item with that serial number
  (\<open>parseInt\<close> is the identity on an integer).\<close>

definition findBySeri :: "bc_item list \<Rightarrow> int \<Rightarrow> bc_item option" where
  "findBySeri items seri = find (\<lambda>i. bc_seri i = seri) items"

text \<open>\<open>validateBatch\<close>: one result per row, in the order of the rows. The summary,
  which \<open>generateSummary\<close> counts from these results, is not modelled.\<close>

definition validateBatch ::
  "(string \<Rightarrow> string \<Rightarrow> rat) \<Rightarrow> validator_options \<Rightarrow> excel_item list \<Rightarrow> bc_item list
     \<Rightarrow> validation_result list" where
  "validateBatch compareTwoStrings opts excelItems pdfItems =
     map (\<lambda>excelItem.
            validateItem compareTwoStrings opts excelItem (findBySeri pdfItems (x_seriBarang excelItem)))
         excelItems"

section \<open>Regular expressions\<close>

text \<open>
  A regular expression of the source is written as a backtracking matcher: applied to
  the text at the current position it returns the texts that can remain after a match, in
  the order in which the engine tries them. The first element of the list is the match
  the engine reports. A greedy quantifier lists the longest match first.
\<close>

type_synonym matcher = "string \<Rightarrow> string list"

definition m_char :: "(char \<Rightarrow> bool) \<Rightarrow> matcher" where
  "m_char P s = (case s of [] \<Rightarrow> [] | c # cs \<Rightarrow> if P c then [cs] else [])"

definition m_lit :: "string \<Rightarrow> matcher" where
  "m_lit w s = (if take (length w) s = w then [drop (length w) s] else [])"

text \<open>With the flag \<open>i\<close> two characters match when their upper-case forms agree.\<close>

definition prefix_ci :: "string \<Rightarrow> string \<Rightarrow> bool" where
  "prefix_ci w s = (length w \<le> length s \<and> map upper_char (take (length w) s) = map upper_char w)"

definition m_lit_ci :: "string \<Rightarrow> matcher" where
  "m_lit_ci w s = (if prefix_ci w s then [drop (length w) s] else [])"

definition m_alts :: "matcher list \<Rightarrow> matcher" where
  "m_alts ms s = concat (map (\<lambda>m. m s) ms)"

definition m_opt :: "matcher \<Rightarrow> matcher" where
  "m_opt m s = m s @ [s]"

fun m_star :: "(char \<Rightarrow> bool) \<Rightarrow> matcher" where
  "m_star P [] = [[]]"
| "m_star P (c # cs) = (if P c then m_star P cs @ [c # cs] else [c # cs])"

definition m_plus :: "(char \<Rightarrow> bool) \<Rightarrow> matcher" where
  "m_plus P s = concat (map (m_star P) (m_char P s))"

text \<open>\<open>m_rep P lo hi\<close> is the class \<open>P\<close> repeated \<open>{lo,hi}\<close> times.\<close>

fun m_rep :: "(char \<Rightarrow> bool) \<Rightarrow> nat \<Rightarrow> nat \<Rightarrow> matcher" where
  "m_rep P lo 0 s = (if lo = 0 then [s] else [])"
| "m_rep P lo (Suc hi) [] = (if lo = 0 then [[]] else [])"
| "m_rep P lo (Suc hi) (c # cs) =
     (if P c then m_rep P (lo - 1) hi cs else []) @ (if lo = 0 then [c # cs] else [])"

text \<open>The text a group captured: what lies between two positions.\<close>

definition captured :: "string \<Rightarrow> string \<Rightarrow> string" where
  "captured s rest = take (length s - length rest) s"

text \<open>An expression anchored at both ends matches when some way through it uses up the
  text.\<close>

definition full_match :: "string list \<Rightarrow> bool" where
  "full_match rests = ([] \<in> set rests)"

text \<open>An expression without \<open>^\<close> is tried at every position from the left.\<close>

fun search :: "(string \<Rightarrow> 'a option) \<Rightarrow> string \<Rightarrow> 'a option" where
  "search f [] = f []"
| "search f (c # cs) = (case f (c # cs) of Some r \<Rightarrow> Some r | None \<Rightarrow> search f cs)"

definition first_match :: "'a list \<Rightarrow> 'a option" where
  "first_match rs = (case rs of [] \<Rightarrow> None | r # _ \<Rightarrow> Some r)"

definition is_alpha :: "char \<Rightarrow> bool" where
  "is_alpha c = (c \<in> set ''abcdefghijklmnopqrstuvwxyzABCDEFGHIJKLMNOPQRSTUVWXYZ'')"

definition is_dot_comma :: "char \<Rightarrow> bool" where
  "is_dot_comma c = (c = CHR ''.'' \<or> c = CHR '','')"

definition is_pipe_space :: "char \<Rightarrow> bool" where
  "is_pipe_space c = (c = CHR ''|'' \<or> is_space c)"

text \<open>\<open>includes\<close>: the text holds the word somewhere.\<close>

fun includes_str :: "string \<Rightarrow> string \<Rightarrow> bool" where
  "includes_str [] w = (w = [])"
| "includes_str (c # cs) w = (take (length w) (c # cs) = w \<or> includes_str cs w)"

text \<open>\<open>join\<close> and \<open>split('\n')\<close>.\<close>

fun js_join :: "string \<Rightarrow> string list \<Rightarrow> string" where
  "js_join sep [] = []"
| "js_join sep [l] = l"
| "js_join sep (l # m # ls) = l @ sep @ js_join sep (m # ls)"

fun split_lines :: "string \<Rightarrow> string list" where
  "split_lines [] = [[]]"
| "split_lines (c # cs) =
     (if c = newline then [] # split_lines cs
      else case split_lines cs of [] \<Rightarrow> [[c]] | l # ls \<Rightarrow> (c # l) # ls)"

text \<open>\<open>parseInt\<close> on a run of decimal digits.\<close>

definition digit_value :: "char \<Rightarrow> nat" where
  "digit_value c = of_char c - 48"

definition digits_value :: "string \<Rightarrow> nat" where
  "digits_value ds = foldl (\<lambda>a d. 10 * a + digit_value d) 0 ds"

definition parseInt :: "string \<Rightarrow> int" where
  "parseInt ds = int (digits_value ds)"

text \<open>
  \<open>parseFloat\<close>, on the texts the quantity patterns can capture (digits, dots and
  commas): the longest prefix of the form digits, optionally a dot and digits, with at
  least one digit; \<open>NaN\<close> when there is none. A sign, an exponent and \<open>Infinity\<close> are
  not modelled.
\<close>

definition float_prefix :: "string \<Rightarrow> string \<times> string" where
  "float_prefix s =
     (let t = dropWhile is_space s;
          ip = takeWhile is_digit t;
          r = dropWhile is_digit t;
          fp = (case r of [] \<Rightarrow> [] | c # r' \<Rightarrow> if c = CHR ''.'' then takeWhile is_digit r' else [])
      in (ip, fp))"

definition parseFloat :: "string \<Rightarrow> jsnum" where
  "parseFloat s =
     (case float_prefix s of
        (ip, fp) \<Rightarrow>
          if ip = [] \<and> fp = [] then NaN
          else Num (of_nat (digits_value ip) + of_nat (digits_value fp) / 10 ^ length fp))"

section \<open>TextNormalizer\<close>

text \<open>
  \<open>cleaned.replace(new RegExp(wrong, 'gi'), correct)\<close> for a key \<open>wrong\<close> without
  characters that are special in a regular expression (no key of the table has one):
  every occurrence, matched without regard to case and scanning left to right, is
  replaced. The keys of the table are not empty; on an empty key the model leaves the
  text as it is.
\<close>

fun replaceAll_ci :: "string \<Rightarrow> string \<Rightarrow> string \<Rightarrow> string" where
  "replaceAll_ci wrong correct [] = []"
| "replaceAll_ci wrong correct (x # xs) =
     (if wrong \<noteq> [] \<and> prefix_ci wrong (x # xs)
      then correct @ replaceAll_ci wrong correct (drop (length wrong - 1) xs)
      else x # replaceAll_ci wrong correct xs)"

definition phraseReplacements :: "(string \<times> string) list" where
  "phraseReplacements =
     [(''Kode 8rg'', ''Kode Brg''),
      (''Kode 8RG'', ''Kode Brg''),
      (''Pos TarifI'', ''Pos Tarif''),
      (''Pos TarifHS'', ''Pos Tarif/HS''),
      (''Pos Taril'', ''Pos Tarif''),
      (''Jurnlah'', ''Jumlah''),
      (''PEMER1TAHUAN'', ''PEMBERITAHUAN''),
      (''PEM8ERITAHUAN'', ''PEMBERITAHUAN''),
      (''1MPOR'', ''IMPOR''),
      (''IMP0R'', ''IMPOR''),
      (''8ARANG'', ''BARANG''),
      (''LEMRAR'', ''LEMBAR''),
      (''LANJIJTAN'', ''LANJUTAN'')]"

definition applyPhraseReplacements :: "string \<Rightarrow> string" where
  "applyPhraseReplacements text =
     foldl (\<lambda>cleaned (wrong, correct). replaceAll_ci wrong correct cleaned) text phraseReplacements"

text \<open>\<open>cleaned.replace(/\s{2,}/g, ' ')\<close>: a run of two or more white-space characters
  (the class \<open>\s\<close> holds the line break too) becomes one space.\<close>

function collapseSpaces :: "string \<Rightarrow> string" where
  "collapseSpaces [] = []"
| "collapseSpaces [c] = [c]"
| "collapseSpaces (c # d # cs) =
     (if is_space c \<and> is_space d then CHR '' '' # collapseSpaces (dropWhile is_space cs)
      else c # collapseSpaces (d # cs))"
  by pat_completeness auto
termination
  by (relation "measure length") (auto simp: less_Suc_eq_le le_SucI length_dropWhile_le)

text \<open>\<open>cleaned.replace(/\n{4,}/g, '\n\n\n')\<close>.\<close>

function collapseNewlines :: "string \<Rightarrow> string" where
  "collapseNewlines [] = []"
| "collapseNewlines (c # cs) =
     (if c = newline \<and> 3 \<le> length (takeWhile (\<lambda>x. x = newline) cs)
      then [newline, newline, newline] @ collapseNewlines (dropWhile (\<lambda>x. x = newline) cs)
      else c # collapseNewlines cs)"
  by pat_completeness auto
termination
  by (relation "measure length") (auto simp: less_Suc_eq_le length_dropWhile_le)

text \<open>\<open>cleaned.split('\n').map(line => line.trim()).join('\n')\<close>.\<close>

definition trimLines :: "string \<Rightarrow> string" where
  "trimLines s = js_join [newline] (map trim (split_lines s))"

text \<open>The three whitespace statements of \<open>postProcessOCRText\<close>, in their order.\<close>

definition normalizeWhitespace :: "string \<Rightarrow> string" where
  "normalizeWhitespace s = trimLines (collapseNewlines (collapseSpaces s))"

text \<open>\<open>postProcessOCRText\<close>. On a text nothing in the body throws, so the \<open>catch\<close>
  branch is not reachable.\<close>

definition postProcessOCRText :: "string \<Rightarrow> string" where
  "postProcessOCRText text = normalizeWhitespace (applyPhraseReplacements text)"

section \<open>ItemExtractor\<close>

subsection \<open>Tariff code and quantity of an OCR item block\<close>

text \<open>The test \<open>/^\d{4}\.\d{2}\.\d{4}$/\<close>.\<close>

definition dotted_4_2_4 :: matcher where
  "dotted_4_2_4 s =
     [r5. r1 \<leftarrow> m_rep is_digit 4 4 s, r2 \<leftarrow> m_char (\<lambda>c. c = CHR ''.'') r1,
          r3 \<leftarrow> m_rep is_digit 2 2 r2, r4 \<leftarrow> m_char (\<lambda>c. c = CHR ''.'') r3,
          r5 \<leftarrow> m_rep is_digit 4 4 r4]"

text \<open>Lines 799 to 811 of \<open>parseOCRItemText\<close>: brackets removed; a code of ten or more
  characters without a dot gets one after the fourth; the layout \<open>NNNN.NN.NNNN\<close> loses
  its second dot (\<open>'$1.$2$3'\<close>).\<close>

definition normalizeHsCode :: "string \<Rightarrow> string" where
  "normalizeHsCode hsCode =
     (let kodeBrg = filter (\<lambda>c. c \<noteq> CHR ''['' \<and> c \<noteq> CHR '']'') hsCode
      in if CHR ''.'' \<notin> set kodeBrg \<and> 10 \<le> length kodeBrg
         then take 4 kodeBrg @ ''.'' @ drop 4 kodeBrg
         else if full_match (dotted_4_2_4 kodeBrg)
         then take 4 kodeBrg @ ''.'' @ take 2 (drop 5 kodeBrg) @ drop 8 kodeBrg
         else kodeBrg)"

text \<open>The tests \<open>/^\d+\.\d{4,}$/\<close> and \<open>/^\d{1,3}\.\d{3}$/\<close>.\<close>

definition decimal_4plus :: matcher where
  "decimal_4plus s =
     [r4. r1 \<leftarrow> m_plus is_digit s, r2 \<leftarrow> m_char (\<lambda>c. c = CHR ''.'') r1,
          r3 \<leftarrow> m_rep is_digit 4 4 r2, r4 \<leftarrow> m_star is_digit r3]"

definition grouped_thousand :: matcher where
  "grouped_thousand s =
     [r3. r1 \<leftarrow> m_rep is_digit 1 3 s, r2 \<leftarrow> m_char (\<lambda>c. c = CHR ''.'') r1,
          r3 \<leftarrow> m_rep is_digit 3 3 r2]"

text \<open>\<open>s.replace(',', '.')\<close> replaces the first comma only.\<close>

fun replace_first_comma :: "string \<Rightarrow> string" where
  "replace_first_comma [] = []"
| "replace_first_comma (c # cs) = (if c = CHR '','' then CHR ''.'' # cs else c # replace_first_comma cs)"

definition remove_dots :: "string \<Rightarrow> string" where
  "remove_dots s = filter (\<lambda>c. c \<noteq> CHR ''.'') s"

text \<open>Lines 822 to 846 of \<open>parseOCRItemText\<close>: the captured quantity text is brought
  to the form \<open>parseFloat\<close> reads.\<close>

definition normalizeQtyString :: "string \<Rightarrow> string" where
  "normalizeQtyString qtyString =
     (if CHR ''.'' \<in> set qtyString \<and> CHR '','' \<in> set qtyString
      then replace_first_comma (remove_dots qtyString)
      else if full_match (decimal_4plus qtyString) then qtyString
      else if full_match (grouped_thousand qtyString) then remove_dots qtyString
      else replace_first_comma qtyString)"

definition parseOCRQty :: "string \<Rightarrow> jsnum" where
  "parseOCRQty qtyString = parseFloat (normalizeQtyString qtyString)"

text \<open>The pattern
  \<open>/([\d.,]+)\s+(Piece|Set|Kg|Unit|Pcs|PCS|SET|PIECE|KG|UNIT)\s*\(([A-Z]+)\)/i\<close>,
  tried at one position: groups 1 and 3 of the first way through it.\<close>

definition unit_names :: "string list" where
  "unit_names = [''Piece'', ''Set'', ''Kg'', ''Unit'', ''Pcs'', ''PCS'', ''SET'', ''PIECE'', ''KG'', ''UNIT'']"

definition qtyPattern_at :: "string \<Rightarrow> (string \<times> string) option" where
  "qtyPattern_at s =
     first_match
       [(captured s r1, captured r5 r6).
          r1 \<leftarrow> m_plus (\<lambda>c. is_digit c \<or> is_dot_comma c) s,
          r2 \<leftarrow> m_plus is_space r1,
          r3 \<leftarrow> m_alts (map m_lit_ci unit_names) r2,
          r4 \<leftarrow> m_star is_space r3,
          r5 \<leftarrow> m_char (\<lambda>c. c = CHR ''('') r4,
          r6 \<leftarrow> m_plus is_alpha r5,
          r7 \<leftarrow> m_char (\<lambda>c. c = CHR '')'') r6]"

definition qtyPattern :: "string \<Rightarrow> (string \<times> string) option" where
  "qtyPattern itemBlock = search qtyPattern_at itemBlock"

text \<open>
  \<open>parseOCRItemText\<close>. The description (lines 853 to 894) is read off the block by
  \<open>extractUraian\<close>, a parameter: no property below depends on it. Every error of the
  body is caught there and turns the result into \<open>null\<close>.
\<close>

definition parseOCRItemText ::
  "(string \<Rightarrow> string) \<Rightarrow> int \<Rightarrow> string \<Rightarrow> string \<Rightarrow> bc_item option" where
  "parseOCRItemText extractUraian seri hsCode itemBlock =
     (let kodeBrg = normalizeHsCode hsCode
      in case qtyPattern itemBlock of
           None \<Rightarrow> None
         | Some (qtyText, unit) \<Rightarrow>
             (let qty = parseOCRQty qtyText
              in if isNaN qty then None
                 else Some \<lparr> bc_seri = seri, bc_kodeBrg = kodeBrg,
                             bc_uraian = extractUraian itemBlock, bc_qty = qty,
                             bc_satuan = trim unit \<rparr>))"

subsection \<open>Strategy B: the OCR table\<close>

text \<open>The tariff-code token \<open>\d{4}[.,]?\d{2,3}[.,]?\d{3,4}\<close>, and with the
  alternative \<open>\d{10}\<close> of \<open>itemLinePattern\<close>.\<close>

definition hs_dotted :: matcher where
  "hs_dotted s =
     [r5. r1 \<leftarrow> m_rep is_digit 4 4 s, r2 \<leftarrow> m_opt (m_char is_dot_comma) r1,
          r3 \<leftarrow> m_rep is_digit 2 3 r2, r4 \<leftarrow> m_opt (m_char is_dot_comma) r3,
          r5 \<leftarrow> m_rep is_digit 3 4 r4]"

definition hs_token :: matcher where
  "hs_token = m_alts [hs_dotted, m_rep is_digit 10 10]"

text \<open>\<open>itemLinePattern\<close>,
  \<open>/^[\|\s]*(\d+)\s+\[?(\d{4}[.,]?\d{2,3}[.,]?\d{3,4}|\d{10})/\<close>: groups 1 and 2 of
  the match, if the line has one.\<close>

definition itemLinePattern :: "string \<Rightarrow> (string \<times> string) option" where
  "itemLinePattern line =
     first_match
       [(captured r0 r1, captured r3 r4).
          r0 \<leftarrow> m_star is_pipe_space line,
          r1 \<leftarrow> m_plus is_digit r0,
          r2 \<leftarrow> m_plus is_space r1,
          r3 \<leftarrow> m_opt (m_char (\<lambda>c. c = CHR ''['')) r2,
          r4 \<leftarrow> hs_token r3]"

text \<open>
  The loop of \<open>parseItemsFromOCRTable\<close> over the lines: a line that matches opens a
  block of itself and the lines after it up to the next matching line, ten at most.
  The block goes to the item parser, whose \<open>null\<close> results are left out.
\<close>

definition item_block :: "string \<Rightarrow> string list \<Rightarrow> string" where
  "item_block line rest =
     line @ [newline] @
     concat (map (\<lambda>l. l @ [newline])
       (take 10 (takeWhile (\<lambda>l. itemLinePattern (trim l) = None) rest)))"

fun ocr_table_items ::
  "(int \<Rightarrow> string \<Rightarrow> string \<Rightarrow> bc_item option) \<Rightarrow> string list \<Rightarrow> bc_item list" where
  "ocr_table_items parseBlock [] = []"
| "ocr_table_items parseBlock (l # ls) =
     (case itemLinePattern (trim l) of
        None \<Rightarrow> ocr_table_items parseBlock ls
      | Some (seriText, hsCode) \<Rightarrow>
          (case parseBlock (parseInt seriText) hsCode (item_block (trim l) ls) of
             None \<Rightarrow> ocr_table_items parseBlock ls
           | Some itemData \<Rightarrow> itemData # ocr_table_items parseBlock ls))"

subsection \<open>The parser object\<close>

text \<open>The lines \<open>parseItems\<close> and \<open>parseItemsFromOCRTable\<close> write to the log, other
  than the lines written per item.\<close>

datatype log_line =
    ParsingItems
  | FoundMarkers nat
  | TryingOCRTable
  | OCRTableFound nat
  | ParsedItems nat

record pdf_parser =
  pdfPath :: string
  fullText :: string
  items :: "bc_item list"
  isScanned :: bool
  log_lines :: "log_line list"

text \<open>\<open>parseItemsFromOCRTable\<close> appends to \<open>this.items\<close>.\<close>

definition parseItemsFromOCRTable ::
  "(int \<Rightarrow> string \<Rightarrow> string \<Rightarrow> bc_item option) \<Rightarrow> pdf_parser \<Rightarrow> pdf_parser" where
  "parseItemsFromOCRTable parseBlock this =
     (let found = items this @ ocr_table_items parseBlock (split_lines (fullText this))
      in this\<lparr> items := found, log_lines := log_lines this @ [OCRTableFound (length found)] \<rparr>)"

subsection \<open>The table section\<close>

definition table_keywords :: "string list" where
  "table_keywords =
     [''LEMBAR LANJUTAN'',
      ''PEMBERITAHUAN IMPOR BARANG UNTUK DITIMBUN'',
      ''PEMBERITAHUAN IMPOR'',
      ''Pos Tarif/HS'',
      ''Pos TarifHS'',
      ''Pos Tarif HS'',
      ''Pos Taril/HS'',
      ''BC23'',
      ''BC 23'',
      ''BC 2.3'',
      ''TEMPAT PENIMBUNAN BERIKAT'']"

text \<open>The pattern \<open>/[\|\s]*\d+\s+[\[\(]?\d{4}[.,]?\d{2,3}[.,]?\d{3,4}/\<close> at one
  position.\<close>

definition itemPattern_at :: "string \<Rightarrow> unit option" where
  "itemPattern_at s =
     first_match
       [(). r0 \<leftarrow> m_star is_pipe_space s,
            r1 \<leftarrow> m_plus is_digit r0,
            r2 \<leftarrow> m_plus is_space r1,
            r3 \<leftarrow> m_opt (m_char (\<lambda>c. c = CHR ''['' \<or> c = CHR ''('')) r2,
            r4 \<leftarrow> hs_dotted r3]"

definition findTableSection :: "string \<Rightarrow> bool" where
  "findTableSection text =
     (if filter (includes_str text) table_keywords \<noteq> [] then True
      else search itemPattern_at text \<noteq> None)"

subsection \<open>Strategy A: the marker of a digital document\<close>

text \<open>The pattern \<open>/(\d+)\s+Pos Tarif\/HS/\<close> at one position: group 1 and the length
  of the match.\<close>

definition marker_at :: "string \<Rightarrow> (string \<times> nat) option" where
  "marker_at s =
     first_match
       [(captured s r1, length s - length r3).
          r1 \<leftarrow> m_plus is_digit s,
          r2 \<leftarrow> m_plus is_space r1,
          r3 \<leftarrow> m_lit ''Pos Tarif/HS'' r2]"

text \<open>
  \<open>[...this.fullText.matchAll(itemPattern)]\<close>: the matches from left to right, each
  with its index and group 1. After a match the search goes on behind it: \<open>skip\<close>
  counts the characters of the last match that are still to be passed over.
\<close>

fun matchAll_marker :: "nat \<Rightarrow> nat \<Rightarrow> string \<Rightarrow> (nat \<times> string) list" where
  "matchAll_marker skip index [] = []"
| "matchAll_marker (Suc skip) index (c # cs) = matchAll_marker skip (Suc index) cs"
| "matchAll_marker 0 index (c # cs) =
     (case marker_at (c # cs) of
        None \<Rightarrow> matchAll_marker 0 (Suc index) cs
      | Some (seriText, len) \<Rightarrow> (index, seriText) # matchAll_marker (len - 1) (Suc index) cs)"

text \<open>The text of each item: from its marker to the next marker or to the end.\<close>

fun item_texts :: "string \<Rightarrow> (nat \<times> string) list \<Rightarrow> (int \<times> string) list" where
  "item_texts text [] = []"
| "item_texts text [(startIndex, seriText)] = [(parseInt seriText, drop startIndex text)]"
| "item_texts text ((startIndex, seriText) # (endIndex, nextSeri) # ms) =
     (parseInt seriText, take (endIndex - startIndex) (drop startIndex text))
       # item_texts text ((endIndex, nextSeri) # ms)"

datatype parse_error = TableSectionNotFound

text \<open>
  \<open>parseItems\<close>. The two parsers of an item's text, \<open>parseItemText\<close> for the digital
  layout and the block parser for the OCR table, are parameters: each returns an item or
  \<open>null\<close>, having caught its own errors. The error of the missing table section is
  logged and thrown again, so it reaches the caller.
\<close>

definition parseItems ::
  "(int \<Rightarrow> string \<Rightarrow> bc_item option) \<Rightarrow> (int \<Rightarrow> string \<Rightarrow> string \<Rightarrow> bc_item option)
     \<Rightarrow> pdf_parser \<Rightarrow> parse_error + pdf_parser" where
  "parseItems parseItemText parseBlock this =
     (if \<not> findTableSection (fullText this) then Inl TableSectionNotFound
      else
        let matches = matchAll_marker 0 0 (fullText this);
            this1 = this\<lparr> items := [],
                          log_lines := log_lines this @ [ParsingItems, FoundMarkers (length matches)] \<rparr>;
            this2 =
              (if 0 < length matches
               then this1\<lparr> items :=
                      List.map_filter (\<lambda>(seri, itemText). parseItemText seri itemText)
                        (item_texts (fullText this) matches) \<rparr>
               else parseItemsFromOCRTable parseBlock
                      (this1\<lparr> log_lines := log_lines this1 @ [TryingOCRTable] \<rparr>))
        in Inr (this2\<lparr> log_lines := log_lines this2 @ [ParsedItems (length (items this2))] \<rparr>))"

section \<open>OCROrchestrator\<close>

text \<open>
  The collaborators of the orchestrator are outside the repository: the rasterizer
  \<open>pdfToPng\<close>, the image library \<open>sharp\<close>, the recognition engine
  \<open>Tesseract.recognize\<close> and the file system. Each is a field of the environment; a call
  returns a value or throws an error. A call of the file system stands for the statements
  around one path (test that it exists, then create, delete or write).
\<close>

datatype js_error = Error string

type_synonym buffer = "nat list"

record png_page =
  page_name :: string
  page_content :: buffer

record ocr_word =
  word_text :: string
  word_confidence :: rat

record ocr_data =
  ocr_words :: "ocr_word list option"
  ocr_text :: string
  ocr_confidence :: rat

datatype enhancement = Grayscale | Normalize | Sharpen | Threshold nat

datatype fs_call = EnsureTempFolder | EnsureTessdata | DeletePng string | RemoveTempFolder | WriteOcrResult

record ocr_env =
  pdfToPng :: "string \<Rightarrow> js_error + png_page list"
  sharp :: "enhancement \<Rightarrow> buffer \<Rightarrow> js_error + buffer"
  recognize :: "buffer \<Rightarrow> js_error + ocr_data"
  fs_throws :: "fs_call \<Rightarrow> js_error option"

text \<open>The chain \<open>sharp(imageBuffer).grayscale().normalize().sharpen().threshold(128)\<close>:
  the first step that throws ends it.\<close>

fun enhance :: "ocr_env \<Rightarrow> enhancement list \<Rightarrow> buffer \<Rightarrow> js_error + buffer" where
  "enhance env [] img = Inr img"
| "enhance env (step # steps) img =
     (case sharp env step img of Inl e \<Rightarrow> Inl e | Inr img' \<Rightarrow> enhance env steps img')"

definition preprocessImage :: "ocr_env \<Rightarrow> buffer \<Rightarrow> buffer" where
  "preprocessImage env imageBuffer =
     (case enhance env [Grayscale, Normalize, Sharpen, Threshold 128] imageBuffer of
        Inr processed \<Rightarrow> processed
      | Inl error \<Rightarrow> imageBuffer)"

text \<open>The words of confidence 30 or more, each followed by a space; the engine's own
  text when it reports no word list.\<close>

definition filteredText :: "ocr_data \<Rightarrow> string" where
  "filteredText data =
     (case ocr_words data of
        Some ws \<Rightarrow> concat (map (\<lambda>w. word_text w @ '' '') (filter (\<lambda>w. 30 \<le> word_confidence w) ws))
      | None \<Rightarrow> ocr_text data)"

text \<open>\<open>processPageWithOCR\<close>: whatever is thrown inside is caught and the page yields
  the empty text.\<close>

definition processPageWithOCR :: "ocr_env \<Rightarrow> png_page \<Rightarrow> string" where
  "processPageWithOCR env page =
     (let preprocessedImage = preprocessImage env (page_content page)
      in case fs_throws env EnsureTessdata of
           Some pageError \<Rightarrow> []
         | None \<Rightarrow>
             (case recognize env preprocessedImage of
                Inl pageError \<Rightarrow> []
              | Inr data \<Rightarrow> filteredText data))"

text \<open>The pages in batches, \<open>pngPages.slice(i, i + batchSize)\<close> for \<open>i\<close> in steps of
  \<open>batchSize\<close>. The source fixes \<open>batchSize\<close> at 3; with 0 its loop would not end,
  and the model has no batch then.\<close>

function batches :: "nat \<Rightarrow> 'a list \<Rightarrow> 'a list list" where
  "batches batchSize xs =
     (if xs = [] \<or> batchSize = 0 then []
      else take batchSize xs # batches batchSize (drop batchSize xs))"
  by pat_completeness auto
termination
  by (relation "measure (\<lambda>(batchSize, xs). length xs)") auto

declare batches.simps [simp del]

text \<open>\<open>ocrText += batchResults.join('\n\n')\<close> for each batch in turn. Deleting the
  images of a batch cannot fail the extraction (its errors are caught), so it does not
  show in the result.\<close>

definition assemble :: "ocr_env \<Rightarrow> png_page list \<Rightarrow> string" where
  "assemble env pngPages =
     concat (map (\<lambda>batch. js_join [newline, newline] (map (processPageWithOCR env) batch))
               (batches 3 pngPages))"

definition ocr_failed :: js_error where
  "ocr_failed = Error ''Cannot extract text from scanned PDF. OCR failed.''"

text \<open>
  \<open>extractTextWithOCR\<close>: the result and the parser object after the call. Any error
  before the \<open>return\<close> is caught and replaced by the one error \<open>ocr_failed\<close>, which is
  thrown to the caller. The text is stored in \<open>this.fullText\<close> before the result file
  is written.
\<close>

definition extractTextWithOCR :: "ocr_env \<Rightarrow> pdf_parser \<Rightarrow> (js_error + string) \<times> pdf_parser" where
  "extractTextWithOCR env this =
     (case fs_throws env EnsureTempFolder of
        Some error \<Rightarrow> (Inl ocr_failed, this)
      | None \<Rightarrow>
          (case pdfToPng env (pdfPath this) of
             Inl error \<Rightarrow> (Inl ocr_failed, this)
           | Inr pngPages \<Rightarrow>
               (let ocrText = assemble env pngPages
                in case fs_throws env RemoveTempFolder of
                     Some error \<Rightarrow> (Inl ocr_failed, this)
                   | None \<Rightarrow>
                       (let ocrText' = postProcessOCRText ocrText;
                            this' = this\<lparr> fullText := ocrText' \<rparr>
                        in case fs_throws env WriteOcrResult of
                             Some error \<Rightarrow> (Inl ocr_failed, this')
                           | None \<Rightarrow> (Inr ocrText', this')))))"

section \<open>Reference statements\<close>

text \<open>The overall status in the words of the specification: OK iff both field statuses
  are OK; ERROR if either field status is ERROR; otherwise WARNING.\<close>

definition overall_status_spec :: "status \<Rightarrow> status \<Rightarrow> status" where
  "overall_status_spec ic q =
     (if ic = OK \<and> q = OK then OK else if ic = ERROR \<or> q = ERROR then ERROR else WARNING)"

text \<open>The number that a run of decimal digits denotes, by the place of each digit, and
  the number that a decimal numeral with the integer digits \<open>ip\<close> and the fraction
  digits \<open>fp\<close> denotes.\<close>

fun numeral_value :: "string \<Rightarrow> nat" where
  "numeral_value [] = 0"
| "numeral_value (c # cs) = (of_char c - 48) * 10 ^ length cs + numeral_value cs"

definition decimal_value :: "string \<Rightarrow> string \<Rightarrow> jsnum" where
  "decimal_value ip fp =
     Num (of_nat (numeral_value ip) + of_nat (numeral_value fp) / 10 ^ length fp)"

section \<open>Notions used in the proofs\<close>

text \<open>The fragments of the pages from page index \<open>i\<close> on, one after the other, each
  but the first of a batch of three after a blank line.\<close>

fun joined_from :: "nat \<Rightarrow> ('a \<Rightarrow> string) \<Rightarrow> 'a list \<Rightarrow> string" where
  "joined_from i f [] = []"
| "joined_from i f (p # ps) =
     (if i mod 3 = 0 then [] else [newline, newline]) @ f p @ joined_from (Suc i) f ps"

text \<open>A text in which no two white-space characters stand side by side.\<close>

fun no_adjacent_spaces :: "string \<Rightarrow> bool" where
  "no_adjacent_spaces [] = True"
| "no_adjacent_spaces [c] = True"
| "no_adjacent_spaces (c # d # cs) = (\<not> (is_space c \<and> is_space d) \<and> no_adjacent_spaces (d # cs))"

text \<open>\<open>spaces_deleted s t\<close>: the text \<open>t\<close> is \<open>s\<close> with some of its white-space
  characters left out.\<close>

inductive spaces_deleted :: "string \<Rightarrow> string \<Rightarrow> bool" where
  sd_Nil: "spaces_deleted [] []"
| sd_keep: "spaces_deleted s t \<Longrightarrow> spaces_deleted (c # s) (c # t)"
| sd_drop: "is_space c \<Longrightarrow> spaces_deleted s t \<Longrightarrow> spaces_deleted (c # s) t"

text \<open>A key of the phrase table occurs in a text, compared without regard to case; a
  text is free of phrases when no key of the table occurs in it.\<close>

fun occurs_ci :: "string \<Rightarrow> string \<Rightarrow> bool" where
  "occurs_ci w [] = (w = [])"
| "occurs_ci w (x # xs) = (prefix_ci w (x # xs) \<or> occurs_ci w xs)"

definition phrase_free :: "string \<Rightarrow> bool" where
  "phrase_free s = list_all (\<lambda>(wrong, correct). \<not> occurs_ci wrong s) phraseReplacements"

section \<open>Concrete inputs\<close>

definition default_options :: validator_options where
  "default_options =
     \<lparr> nameSimilarityThreshold = Undefined, allowMultiItemSameSeri = Undefined,
       strictMode = Undefined \<rparr>"

text \<open>Two rows of one shipment group with the same serial number, asking for 2 and 3
  pieces, and the item of the document with that serial number, of quantity 4.\<close>

definition row_a :: excel_item where
  "row_a = \<lparr> x_rowNumber = 5, x_itemCode = ''AB12345'', x_itemName = ''PART'', x_qty = Num 2,
             x_ajuNumber = ''AJU1'', x_seriBarang = 1, qtyToCheck = None, isDuplicate = None,
             duplicateCount = None \<rparr>"

definition row_b :: excel_item where
  "row_b = \<lparr> x_rowNumber = 6, x_itemCode = ''AB12345'', x_itemName = ''PART'', x_qty = Num 3,
             x_ajuNumber = ''AJU1'', x_seriBarang = 1, qtyToCheck = None, isDuplicate = None,
             duplicateCount = None \<rparr>"

definition doc_item :: bc_item where
  "doc_item = \<lparr> bc_seri = 1, bc_kodeBrg = ''AB12345'', bc_uraian = ''PART'', bc_qty = Num 4,
                bc_satuan = ''PCE'' \<rparr>"

text \<open>A parser object holding a text, before any item was parsed.\<close>

definition parser_of :: "string \<Rightarrow> pdf_parser" where
  "parser_of text =
     \<lparr> pdfPath = ''scan.pdf'', fullText = text, items = [], isScanned = False, log_lines = [] \<rparr>"

definition ocr_table_text :: string where
  "ocr_table_text = ''BC 2.3\<newline>| 1 [8479.903000 Tidak Japan (JP) 1.0000 Piece (PCE)''"

definition digital_text :: string where
  "digital_text = ''BC 2.3\<newline>1 Pos Tarif/HS Kode Brg : AB12345''"

text \<open>Two pages and their recognition: the first page is read, the second one fails.\<close>

definition page_one :: png_page where
  "page_one = \<lparr> page_name = ''page_1.png'', page_content = [1, 2, 3] \<rparr>"

definition page_two :: png_page where
  "page_two = \<lparr> page_name = ''page_2.png'', page_content = [4, 5, 6] \<rparr>"

definition data_one :: ocr_data where
  "data_one =
     \<lparr> ocr_words = Some [\<lparr> word_text = ''Kode'', word_confidence = 90 \<rparr>,
                         \<lparr> word_text = ''x'', word_confidence = 12 \<rparr>],
       ocr_text = ''Kode x'', ocr_confidence = 51 \<rparr>"

definition env_second_page_fails :: ocr_env where
  "env_second_page_fails =
     \<lparr> pdfToPng = (\<lambda>path. Inr [page_one, page_two]),
       sharp = (\<lambda>step img. Inr img),
       recognize = (\<lambda>img. if img = [1, 2, 3] then Inr data_one else Inl (Error ''recognition failed'')),
       fs_throws = (\<lambda>call. None) \<rparr>"

text \<open>Four pages, two batches: the second page fails, the fourth comes without a word
  list.\<close>

definition page_three :: png_page where
  "page_three = \<lparr> page_name = ''page_3.png'', page_content = [7, 8, 9] \<rparr>"

definition page_four :: png_page where
  "page_four = \<lparr> page_name = ''page_4.png'', page_content = [10] \<rparr>"

definition data_three :: ocr_data where
  "data_three =
     \<lparr> ocr_words = Some [\<lparr> word_text = ''Brg'', word_confidence = 80 \<rparr>],
       ocr_text = ''Brg'', ocr_confidence = 80 \<rparr>"

definition data_four :: ocr_data where
  "data_four = \<lparr> ocr_words = None, ocr_text = ''Seri'', ocr_confidence = 70 \<rparr>"

definition env_middle_page_fails :: ocr_env where
  "env_middle_page_fails =
     \<lparr> pdfToPng = (\<lambda>path. Inr [page_one, page_two, page_three, page_four]),
       sharp = (\<lambda>step img. Inr img),
       recognize = (\<lambda>img. if img = [1, 2, 3] then Inr data_one
                            else if img = [7, 8, 9] then Inr data_three
                            else if img = [10] then Inr data_four
                            else Inl (Error ''recognition failed'')),
       fs_throws = (\<lambda>call. None) \<rparr>"

definition env_no_raster :: ocr_env where
  "env_no_raster = env_second_page_fails\<lparr> pdfToPng := (\<lambda>path. Inl (Error ''Invalid PDF'')) \<rparr>"

definition env_sharp_fails :: ocr_env where
  "env_sharp_fails =
     env_second_page_fails\<lparr> sharp := (\<lambda>step img. Inl (Error ''unsupported image format'')) \<rparr>"

section \<open>Reconciliation: the overall status\<close>

text \<open>
  C7. Every result of \<open>validateItem\<close> carries both field statuses, and its overall
  status is the function of the two that the specification states: OK iff both are OK,
  ERROR if either is ERROR, WARNING in every other case. It holds for a matched row and
  for a row whose serial number is not in the document alike.
\<close>

theorem validateItem_overall_status:
  "\<exists>ic q. v_itemCode (r_validation (validateItem sim opts x bcItem)) = Some ic
     \<and> v_qty (r_validation (validateItem sim opts x bcItem)) = Some q
     \<and> v_overall (r_validation (validateItem sim opts x bcItem)) = Some (overall_status_spec ic q)"
  by (cases bcItem) (simp_all add: validateItem_def overall_status_spec_def Let_def)

text \<open>The row \<open>row_b\<close> asks for 3 pieces of an item the document lists with 4: both
  fields are OK and so is the row. Against a document item of quantity 1 the quantity is
  OVER LIMIT and the row a WARNING; against one of quantity \<open>NaN\<close> the quantity status
  is ERROR and so is the row.\<close>

theorem validateItem_overall_status_witness:
  "v_overall (r_validation (validateItem (\<lambda>a b. 0) default_options row_b (Some doc_item)))
     = Some OK
   \<and> v_overall (r_validation
        (validateItem (\<lambda>a b. 0) default_options row_b (Some (doc_item\<lparr>bc_qty := Num 1\<rparr>))))
     = Some WARNING
   \<and> v_overall (r_validation
        (validateItem (\<lambda>a b. 0) default_options row_b (Some (doc_item\<lparr>bc_qty := NaN\<rparr>))))
     = Some ERROR"
  using validateItem_overall_status [of "\<lambda>a b. 0" default_options row_b "Some doc_item"]
    validateItem_overall_status [of "\<lambda>a b. 0" default_options row_b
      "Some (doc_item\<lparr>bc_qty := Num 1\<rparr>)"]
    validateItem_overall_status [of "\<lambda>a b. 0" default_options row_b
      "Some (doc_item\<lparr>bc_qty := NaN\<rparr>)"]
  by (simp add: validateItem_def validateItemCode_def validateQty_def row_b_def doc_item_def
      overall_status_spec_def Let_def)

section \<open>Reconciliation: rows that share a serial number\<close>

lemma show_int_one: "show_int 1 = ''1''"
  by (simp add: show_int_def show_nat.simps digit_char_def)

lemma processDuplicateSeri_rows:
  "processDuplicateSeri (Validator default_options) [row_a, row_b] =
     [row_a\<lparr>qtyToCheck := Some (Num 5), isDuplicate := Some True, duplicateCount := Some 2\<rparr>,
      row_b\<lparr>qtyToCheck := Some (Num 5), isDuplicate := Some True, duplicateCount := Some 2\<rparr>]"
  by (simp add: processDuplicateSeri_def Validator_def default_options_def group_items_def
      group_key_def row_a_def row_b_def show_int_one process_group_def js_or_def Let_def)

text \<open>The sum is stored in \<open>qtyToCheck\<close>, a field \<open>validateItem\<close> never reads: it
  compares \<open>excelItem.qty\<close>.\<close>

lemma validateItem_ignores_qtyToCheck:
  "validateItem sim opts (x\<lparr>qtyToCheck := q\<rparr>) bcItem = validateItem sim opts x bcItem"
  by (cases bcItem) (simp_all add: validateItem_def Let_def)

text \<open>
  C1. The claim: for rows that share a (group, serial) key the sum of their quantities
  is what is compared with the quantity of the document's item, so two rows of 2 and 3
  against an item of 4 are both OVER LIMIT. The code at that input:
  \<open>processDuplicateSeri\<close> stores the sum 5 in \<open>qtyToCheck\<close> of both rows, and
  \<open>validateBatch\<close> then compares each row's own quantity (2, then 3) with 4, so both
  quantity statuses are OK.
\<close>

theorem duplicate_rows_checked_one_by_one:
  "map qtyToCheck (processDuplicateSeri (Validator default_options) [row_a, row_b])
     = [Some (Num 5), Some (Num 5)]
   \<and> map (\<lambda>r. v_qty (r_validation r))
        (validateBatch sim (Validator default_options)
           (processDuplicateSeri (Validator default_options) [row_a, row_b]) [doc_item])
     = [Some OK, Some OK]"
  unfolding processDuplicateSeri_rows
  by (simp add: validateBatch_def validateItem_def findBySeri_def doc_item_def row_a_def
      row_b_def validateQty_def Let_def)

section \<open>Reconciliation: the similarity threshold\<close>

text \<open>
  C9. A falsy value given as \<open>nameSimilarityThreshold\<close> (absent, \<open>null\<close>, \<open>false\<close>,
  0 or \<open>NaN\<close>) leaves the instance with the default 0.75; no options give an instance
  whose threshold is the number 0; and an instance constructed with 0 reports a pair of
  codes that differ and score below 0.75 as NOT MATCH.
\<close>

theorem Validator_falsy_threshold_default:
  "(\<not> truthy v \<longrightarrow>
      nameSimilarityThreshold (Validator (options\<lparr>nameSimilarityThreshold := v\<rparr>))
        = Number (Num (3/4)))
   \<and> nameSimilarityThreshold (Validator options) \<noteq> Number (Num 0)
   \<and> (toUpperCase (trim a) \<noteq> toUpperCase (trim b)
        \<and> sim (toUpperCase (trim a)) (toUpperCase (trim b)) < 3/4 \<longrightarrow>
        fst (validateItemCode sim
               (Validator (options\<lparr>nameSimilarityThreshold := Number (Num 0)\<rparr>)) a b)
          = NOT_MATCH)"
  by (auto simp: Validator_def js_or_def validateItemCode_def Let_def)

lemma codes_differ: "toUpperCase (trim ''AB12345'') \<noteq> toUpperCase (trim ''ZZ'')"
  by code_simp

theorem Validator_falsy_threshold_default_witness:
  "\<not> truthy (Number (Num 0))
   \<and> nameSimilarityThreshold
        (Validator (default_options\<lparr>nameSimilarityThreshold := Number (Num 0)\<rparr>))
       = Number (Num (3/4))
   \<and> fst (validateItemCode (\<lambda>a b. 1/2)
            (Validator (default_options\<lparr>nameSimilarityThreshold := Number (Num 0)\<rparr>))
            ''AB12345'' ''ZZ'')
       = NOT_MATCH"
  using Validator_falsy_threshold_default [where v = "Number (Num 0)" and options = default_options
      and a = "''AB12345''" and b = "''ZZ''" and sim = "\<lambda>a b. 1/2"] codes_differ
  by simp

section \<open>TextNormalizer: the whitespace statements\<close>

lemma nas_Cons: "no_adjacent_spaces (c # s) \<longleftrightarrow> (s = [] \<or> \<not> (is_space c \<and> is_space (hd s))) \<and> no_adjacent_spaces s"
  by (cases s) auto

lemma collapseSpaces_Nil_iff: "collapseSpaces s = [] \<longleftrightarrow> s = []"
  by (induction s rule: collapseSpaces.induct) auto

lemma hd_collapseSpaces: "s \<noteq> [] \<Longrightarrow> is_space (hd (collapseSpaces s)) \<Longrightarrow> is_space (hd s)"
  by (induction s rule: collapseSpaces.induct) (auto split: if_splits)

lemma nas_collapseSpaces: "no_adjacent_spaces (collapseSpaces s)"
proof (induction s rule: collapseSpaces.induct)
  case 1 show ?case by simp
next
  case (2 c) show ?case by simp
next
  case (3 c d cs)
  show ?case
  proof (cases "is_space c \<and> is_space d")
    case True
    let ?r = "dropWhile is_space cs"
    have ih: "no_adjacent_spaces (collapseSpaces ?r)" using 3(1) True by simp
    have "?r = [] \<or> \<not> is_space (hd ?r)" using hd_dropWhile[of is_space cs] by blast
    then have "collapseSpaces ?r = [] \<or> \<not> is_space (hd (collapseSpaces ?r))"
      using hd_collapseSpaces[of ?r] collapseSpaces_Nil_iff[of ?r] by blast
    then show ?thesis using True ih by (simp add: nas_Cons)
  next
    case False
    have ih: "no_adjacent_spaces (collapseSpaces (d # cs))" using 3(2) False by simp
    have "is_space c \<Longrightarrow> \<not> is_space (hd (collapseSpaces (d # cs)))"
      using False hd_collapseSpaces[of "d # cs"] by auto
    then show ?thesis using False ih by (auto simp: nas_Cons)
  qed
qed

lemma collapseSpaces_id: "no_adjacent_spaces s \<Longrightarrow> collapseSpaces s = s"
  by (induction s rule: collapseSpaces.induct) auto

lemma newline_is_space: "is_space newline"
  by (simp add: is_space_def newline_def)

lemma collapseNewlines_id: "no_adjacent_spaces s \<Longrightarrow> collapseNewlines s = s"
proof (induction s)
  case Nil show ?case by simp
next
  case (Cons c cs)
  have ih: "collapseNewlines cs = cs" using Cons by (simp add: nas_Cons)
  have "\<not> (c = newline \<and> 3 \<le> length (takeWhile (\<lambda>x. x = newline) cs))"
  proof
    assume a: "c = newline \<and> 3 \<le> length (takeWhile (\<lambda>x. x = newline) cs)"
    then obtain x xs where cs: "cs = x # xs" by (cases cs) auto
    with a have "x = newline" by (auto split: if_splits)
    with a cs Cons.prems show False by (simp add: newline_is_space)
  qed
  then show ?case using ih by auto
qed

lemma sd_refl: "spaces_deleted s s"
  by (induction s) (auto intro: spaces_deleted.intros)

lemma sd_append: "spaces_deleted a b \<Longrightarrow> spaces_deleted c d \<Longrightarrow> spaces_deleted (a @ c) (b @ d)"
  by (induction rule: spaces_deleted.induct) (auto intro: spaces_deleted.intros)

lemma sd_rev: "spaces_deleted s t \<Longrightarrow> spaces_deleted (rev s) (rev t)"
proof (induction rule: spaces_deleted.induct)
  case sd_Nil show ?case by (simp add: spaces_deleted.sd_Nil)
next
  case (sd_keep s t c)
  then show ?case using sd_append[of "rev s" "rev t" "[c]" "[c]"] by (simp add: sd_refl)
next
  case (sd_drop c s t)
  have "spaces_deleted [c] []" using sd_drop(1) by (auto intro: spaces_deleted.intros)
  then show ?case using sd_append[of "rev s" "rev t" "[c]" "[]"] sd_drop by simp
qed

lemma sd_dropWhile: "spaces_deleted s (dropWhile is_space s)"
  by (induction s) (auto intro: spaces_deleted.intros sd_refl)

lemma sd_trans: "spaces_deleted s t \<Longrightarrow> spaces_deleted t u \<Longrightarrow> spaces_deleted s u"
proof (induction arbitrary: u rule: spaces_deleted.induct)
  case sd_Nil then show ?case by simp
next
  case (sd_keep s t c)
  from sd_keep.prems show ?case
  proof (cases rule: spaces_deleted.cases)
    case (sd_keep u') then show ?thesis using sd_keep.IH by (auto intro: spaces_deleted.intros)
  next
    case (sd_drop) then show ?thesis using sd_keep.IH by (auto intro: spaces_deleted.intros)
  qed
next
  case (sd_drop c s t)
  then show ?case by (auto intro: spaces_deleted.intros)
qed

lemma sd_trim: "spaces_deleted s (trim s)"
proof -
  have 1: "spaces_deleted s (dropWhile is_space s)" by (rule sd_dropWhile)
  have "spaces_deleted (rev (dropWhile is_space s)) (dropWhile is_space (rev (dropWhile is_space s)))"
    by (rule sd_dropWhile)
  then have "spaces_deleted (rev (rev (dropWhile is_space s))) (trim s)"
    unfolding trim_def by (rule sd_rev)
  then show ?thesis using 1 sd_trans by simp
qed

lemma sd_hd: "spaces_deleted s t \<Longrightarrow> t \<noteq> [] \<Longrightarrow> is_space (hd t) \<Longrightarrow> s \<noteq> [] \<and> is_space (hd s)"
  by (induction rule: spaces_deleted.induct) auto

lemma nas_sd: "spaces_deleted s t \<Longrightarrow> no_adjacent_spaces s \<Longrightarrow> no_adjacent_spaces t"
proof (induction rule: spaces_deleted.induct)
  case sd_Nil show ?case by simp
next
  case (sd_keep s t c)
  then have t: "no_adjacent_spaces t" by (simp add: nas_Cons)
  have "t = [] \<or> \<not> (is_space c \<and> is_space (hd t))"
    using sd_hd[OF sd_keep(1)] sd_keep.prems by (auto simp: nas_Cons)
  then show ?case using t by (simp add: nas_Cons)
next
  case (sd_drop c s t)
  then show ?case by (simp add: nas_Cons)
qed

lemma split_lines_not_Nil: "split_lines s \<noteq> []"
  by (induction s) (auto split: list.splits)

lemma join_split: "js_join [newline] (split_lines s) = s"
proof (induction s)
  case Nil show ?case by simp
next
  case (Cons c cs)
  obtain l ls where sp: "split_lines cs = l # ls" using split_lines_not_Nil[of cs] by (cases "split_lines cs") auto
  show ?case
  proof (cases "c = newline")
    case True then show ?thesis using Cons sp by simp
  next
    case False
    then show ?thesis using Cons sp by (cases ls) auto
  qed
qed

lemma sd_join: "list_all2 spaces_deleted ls ms \<Longrightarrow> spaces_deleted (js_join sep ls) (js_join sep ms)"
proof (induction ls ms rule: list_all2_induct)
  case Nil show ?case by (simp add: sd_Nil)
next
  case (Cons l ls m ms)
  show ?case
  proof (cases ls)
    case Nil with Cons show ?thesis by simp
  next
    case (Cons l' ls')
    with Cons.hyps(2) obtain m' ms' where "ms = m' # ms'" by (cases ms) auto
    with Cons Cons.hyps Cons.IH show ?thesis
      using sd_append[OF Cons.hyps(1) sd_append[OF sd_refl[of sep] Cons.IH]] by simp
  qed
qed

lemma sd_trimLines: "spaces_deleted s (trimLines s)"
proof -
  have "list_all2 spaces_deleted (split_lines s) (map trim (split_lines s))"
    by (simp add: list_all2_map2 list_all2_same sd_trim)
  then have "spaces_deleted (js_join [newline] (split_lines s)) (trimLines s)"
    unfolding trimLines_def by (rule sd_join)
  then show ?thesis by (simp add: join_split)
qed

lemma split_lines_no_newline: "l \<in> set (split_lines s) \<Longrightarrow> newline \<notin> set l"
proof (induction s arbitrary: l)
  case Nil then show ?case by simp
next
  case (Cons c cs)
  obtain m ms where sp: "split_lines cs = m # ms" using split_lines_not_Nil[of cs] by (cases "split_lines cs") auto
  show ?case using Cons sp by (auto split: if_splits)
qed

lemma split_lines_append_newline:
  "newline \<notin> set l \<Longrightarrow> split_lines (l @ newline # r) = l # split_lines r"
  by (induction l) auto

lemma split_lines_plain: "newline \<notin> set l \<Longrightarrow> split_lines l = [l]"
  by (induction l) auto

lemma split_join: "ls \<noteq> [] \<Longrightarrow> \<forall>l\<in>set ls. newline \<notin> set l \<Longrightarrow> split_lines (js_join [newline] ls) = ls"
proof (induction ls)
  case Nil then show ?case by simp
next
  case (Cons l ls)
  show ?case
  proof (cases ls)
    case Nil
    then show ?thesis using Cons.prems by (simp add: split_lines_plain)
  next
    case (Cons m ms)
    then have "split_lines (js_join [newline] ls) = ls" using Cons.IH Cons.prems by simp
    then show ?thesis using Cons Cons.prems by (simp add: split_lines_append_newline)
  qed
qed

lemma set_trim: "set (trim l) \<subseteq> set l"
  unfolding trim_def using set_dropWhileD by (metis set_rev subsetI)

lemma rtrim_hd: "xs \<noteq> [] \<Longrightarrow> \<not> P (hd xs) \<Longrightarrow> rev (dropWhile P (rev xs)) \<noteq> [] \<and> hd (rev (dropWhile P (rev xs))) = hd xs"
proof -
  assume a: "xs \<noteq> []" "\<not> P (hd xs)"
  then obtain x ys where xs: "xs = x # ys" by (cases xs) auto
  have "dropWhile P (rev ys @ [x]) = dropWhile P (rev ys) @ [x]"
    using a xs by (simp add: dropWhile_append)
  then show ?thesis using xs by simp
qed

lemma trim_idem: "trim (trim s) = trim s"
proof -
  let ?a = "dropWhile is_space s"
  have t: "trim s = rev (dropWhile is_space (rev ?a))" by (simp add: trim_def)
  have "trim s = [] \<or> \<not> is_space (hd (trim s))"
  proof (cases "?a = []")
    case True
    have "trim s = rev (dropWhile is_space (rev []))" unfolding t True ..
    then show ?thesis by simp
  next
    case False
    then have "\<not> is_space (hd ?a)" using hd_dropWhile[of is_space s] by blast
    then show ?thesis using rtrim_hd[OF False, of is_space] t by simp
  qed
  then have "dropWhile is_space (trim s) = trim s" by (simp add: dropWhile_eq_self_iff)
  then show ?thesis by (simp add: trim_def)
qed

lemma trim_trim: "trim \<circ> trim = trim"
  by (rule ext) (simp add: trim_idem)

lemma trimLines_idem: "trimLines (trimLines s) = trimLines s"
proof -
  let ?ls = "map trim (split_lines s)"
  have ne: "?ls \<noteq> []" by (simp add: split_lines_not_Nil)
  have "\<forall>l\<in>set ?ls. newline \<notin> set l"
    using split_lines_no_newline set_trim by fastforce
  then have "split_lines (js_join [newline] ?ls) = ?ls" using ne by (rule split_join[rotated])
  then show ?thesis by (simp add: trimLines_def trim_trim)
qed

lemma collapseNewlines_dead: "collapseNewlines (collapseSpaces s) = collapseSpaces s"
  by (simp add: collapseNewlines_id nas_collapseSpaces)

lemma normalizeWhitespace_idem: "normalizeWhitespace (normalizeWhitespace s) = normalizeWhitespace s"
proof -
  let ?c = "collapseSpaces s"
  have c: "no_adjacent_spaces ?c" by (rule nas_collapseSpaces)
  have w: "normalizeWhitespace s = trimLines ?c"
    by (simp add: normalizeWhitespace_def collapseNewlines_dead)
  have t: "no_adjacent_spaces (trimLines ?c)" using sd_trimLines c by (rule nas_sd)
  show ?thesis unfolding w
    by (simp add: normalizeWhitespace_def collapseSpaces_id[OF t] collapseNewlines_id[OF t] trimLines_idem)
qed

text \<open>
  C2. The claim: runs of four or more line breaks become exactly three, and a line break
  outside such a run is kept. The code at the text \<open>a\n\n\n\nb\<close>: the statement
  \<open>replace(/\s{2,}/g, ' ')\<close> runs first and its class \<open>\s\<close> holds the line break, so the
  four line breaks become one space and the result is \<open>a b\<close>; two line breaks end the
  same way. The statement for \<open>/\n{4,}/g\<close> after it never finds a run (lemma
  \<open>collapseNewlines_dead\<close>).
\<close>

theorem newline_runs_become_one_space:
  "normalizeWhitespace ''a\<newline>\<newline>\<newline>\<newline>b'' = ''a b''
   \<and> normalizeWhitespace ''a\<newline>\<newline>b'' = ''a b''
   \<and> postProcessOCRText ''a\<newline>\<newline>\<newline>\<newline>b'' = ''a b''"
  by code_simp

section \<open>TextNormalizer: applying it twice\<close>

lemma replaceAll_ci_absent: "\<not> occurs_ci w s \<Longrightarrow> replaceAll_ci w c s = s"
  by (induction s) auto

lemma foldl_replace_absent:
  "list_all (\<lambda>(w, c). \<not> occurs_ci w s) tbl \<Longrightarrow>
   foldl (\<lambda>cleaned (w, c). replaceAll_ci w c cleaned) s tbl = s"
  by (induction tbl) (auto simp: replaceAll_ci_absent)

lemma applyPhraseReplacements_phrase_free: "phrase_free s \<Longrightarrow> applyPhraseReplacements s = s"
  unfolding phrase_free_def applyPhraseReplacements_def by (rule foldl_replace_absent)

text \<open>
  The claim of C5 as it is written, that \<open>postProcessOCRText\<close> applied twice gives what
  it gives applied once, fails. In \<open>Kode  8rg\<close> the two spaces keep the phrase table from
  matching; the whitespace statements then make one space of them, and the second
  application finds the phrase \<open>Kode 8rg\<close> and repairs it.
\<close>

theorem postProcessOCRText_not_idempotent:
  "postProcessOCRText ''Kode  8rg'' = ''Kode 8rg''
   \<and> postProcessOCRText (postProcessOCRText ''Kode  8rg'') = ''Kode Brg''
   \<and> postProcessOCRText (postProcessOCRText ''Kode  8rg'') \<noteq> postProcessOCRText ''Kode  8rg''"
  by code_simp

text \<open>The phrase table alone is not idempotent either: keys are matched without regard
  to case, and \<open>Pos TarifI\<close> is repaired to \<open>Pos Tarif\<close>, which the next letter can turn
  into the key again.\<close>

lemma phrase_table_not_idempotent:
  "postProcessOCRText ''Pos TarifII'' = ''Pos TarifI''
   \<and> postProcessOCRText ''Pos TarifI'' = ''Pos Tarif''"
  by code_simp

text \<open>
  C5, amended. The whitespace statements are idempotent on every text, and
  \<open>postProcessOCRText\<close> applied twice gives what it gives applied once on every text
  whose first result holds no key of the phrase table.
\<close>

theorem postProcessOCRText_idempotent_when_phrase_free:
  "normalizeWhitespace (normalizeWhitespace text) = normalizeWhitespace text
   \<and> (phrase_free (postProcessOCRText text) \<longrightarrow>
        postProcessOCRText (postProcessOCRText text) = postProcessOCRText text)"
proof (intro conjI impI)
  show "normalizeWhitespace (normalizeWhitespace text) = normalizeWhitespace text"
    by (rule normalizeWhitespace_idem)
next
  assume "phrase_free (postProcessOCRText text)"
  then have "applyPhraseReplacements (postProcessOCRText text) = postProcessOCRText text"
    by (rule applyPhraseReplacements_phrase_free)
  then have "postProcessOCRText (postProcessOCRText text)
               = normalizeWhitespace (postProcessOCRText text)"
    by (simp add: postProcessOCRText_def)
  then show "postProcessOCRText (postProcessOCRText text) = postProcessOCRText text"
    by (simp add: postProcessOCRText_def normalizeWhitespace_idem)
qed

lemma phrase_free_example: "phrase_free (postProcessOCRText ''Kode 8rg  x '')"
  by code_simp

theorem postProcessOCRText_idempotent_when_phrase_free_witness:
  "phrase_free (postProcessOCRText ''Kode 8rg  x '')
   \<and> postProcessOCRText (postProcessOCRText ''Kode 8rg  x '') = postProcessOCRText ''Kode 8rg  x ''"
  using postProcessOCRText_idempotent_when_phrase_free [of "''Kode 8rg  x ''"] phrase_free_example
  by simp

section \<open>Regular expressions: what a matcher consumes\<close>

text \<open>A repetition of a character class gives back exactly the texts that remain after
  a run of characters of the class, of a length the quantifier allows.\<close>

lemma m_star_self: "s \<in> set (m_star P s)"
  by (cases s) auto

lemma m_rep_self: "s \<in> set (m_rep P 0 hi s)"
  by (cases hi; cases s) auto

lemma m_rep_consumes:
  "r \<in> set (m_rep P lo hi s) \<Longrightarrow> \<exists>ds. s = ds @ r \<and> list_all P ds \<and> lo \<le> length ds \<and> length ds \<le> hi"
proof (induction P lo hi s rule: m_rep.induct)
  case (1 P lo s)
  then show ?case by (auto split: if_splits)
next
  case (2 P lo hi)
  then show ?case by (auto split: if_splits)
next
  case (3 P lo hi c cs)
  from 3(2) consider (a) "P c" "r \<in> set (m_rep P (lo - 1) hi cs)" | (b) "lo = 0" "r = c # cs"
    by (auto split: if_splits)
  then show ?case
  proof cases
    case a
    then obtain ds where "cs = ds @ r" "list_all P ds" "lo - 1 \<le> length ds" "length ds \<le> hi"
      using 3(1) by blast
    then show ?thesis using a(1) by (intro exI[of _ "c # ds"]) auto
  next
    case b
    then show ?thesis by (intro exI[of _ "[]"]) auto
  qed
qed

lemma m_rep_accepts:
  "list_all P ds \<Longrightarrow> lo \<le> length ds \<Longrightarrow> length ds \<le> hi \<Longrightarrow> rest \<in> set (m_rep P lo hi (ds @ rest))"
proof (induction ds arbitrary: lo hi)
  case Nil
  then show ?case using m_rep_self[of rest P hi] by simp
next
  case (Cons d ds)
  then obtain hi' where hi: "hi = Suc hi'" by (cases hi) auto
  have "rest \<in> set (m_rep P (lo - 1) hi' (ds @ rest))"
    using Cons hi by (intro Cons.IH) auto
  then show ?case using Cons.prems hi by simp
qed


lemma m_char_iff: "r \<in> set (m_char P s) \<longleftrightarrow> (\<exists>c. s = c # r \<and> P c)"
  by (cases s) (auto simp: m_char_def)

lemma m_star_consumes: "r \<in> set (m_star P s) \<Longrightarrow> \<exists>u. s = u @ r \<and> list_all P u"
proof (induction s)
  case Nil
  then show ?case by simp
next
  case (Cons c cs)
  from Cons.prems consider (a) "P c" "r \<in> set (m_star P cs)" | (b) "r = c # cs"
    by (auto split: if_splits)
  then show ?case
  proof cases
    case a
    then obtain u where "cs = u @ r" "list_all P u" using Cons.IH by blast
    then show ?thesis using a(1) by (intro exI[of _ "c # u"]) simp
  next
    case b
    then show ?thesis by (intro exI[of _ "[]"]) simp
  qed
qed

lemma m_star_accepts: "list_all P u \<Longrightarrow> rest \<in> set (m_star P (u @ rest))"
  by (induction u) (simp_all add: m_star_self)

lemma m_plus_consumes:
  "r \<in> set (m_plus P s) \<Longrightarrow> \<exists>u. s = u @ r \<and> u \<noteq> [] \<and> list_all P u"
proof -
  assume "r \<in> set (m_plus P s)"
  then obtain c cs where s: "s = c # cs" "P c" "r \<in> set (m_star P cs)"
    by (auto simp: m_plus_def m_char_iff)
  then obtain u where "cs = u @ r" "list_all P u" using m_star_consumes by blast
  then show ?thesis using s by (intro exI[of _ "c # u"]) simp
qed

lemma m_plus_accepts: "list_all P u \<Longrightarrow> u \<noteq> [] \<Longrightarrow> rest \<in> set (m_plus P (u @ rest))"
  by (cases u) (auto simp: m_plus_def m_char_def m_star_accepts)

lemma not_digit: "\<not> is_digit (CHR ''.'')" "\<not> is_digit (CHR '','')"
  by (simp_all add: is_digit_def)

lemma digit_not_space: "is_digit c \<Longrightarrow> \<not> is_space c"
  by (auto simp: is_digit_def is_space_def)

lemma dot_not_space: "\<not> is_space (CHR ''.'')"
  by (simp add: is_space_def)

lemma digits_prefix_unique:
  assumes "list_all is_digit u" "list_all is_digit v" "\<not> is_digit c" "\<not> is_digit d"
    and eq: "u @ c # w = v @ d # x"
  shows "u = v \<and> c = d \<and> w = x"
proof -
  have "takeWhile is_digit (u @ c # w) = u" using assms(1,3) by (simp add: takeWhile_tail list_all_iff)
  moreover have "takeWhile is_digit (v @ d # x) = v" using assms(2,4) by (simp add: takeWhile_tail list_all_iff)
  ultimately have "u = v" using eq by simp
  then show ?thesis using eq by simp
qed

lemma decimal_4plus_match:
  assumes "list_all is_digit ip" "ip \<noteq> []" "list_all is_digit fp" "4 \<le> length fp"
  shows "full_match (decimal_4plus (ip @ CHR ''.'' # fp))"
proof -
  have 1: "CHR ''.'' # fp \<in> set (m_plus is_digit (ip @ CHR ''.'' # fp))"
    using assms(1,2) by (rule m_plus_accepts)
  have 2: "fp \<in> set (m_char (\<lambda>c. c = CHR ''.'') (CHR ''.'' # fp))" by (simp add: m_char_iff)
  have "drop 4 fp \<in> set (m_rep is_digit 4 4 (take 4 fp @ drop 4 fp))"
    using assms(3,4) by (intro m_rep_accepts) (auto simp: list_all_iff dest: in_set_takeD)
  then have 3: "drop 4 fp \<in> set (m_rep is_digit 4 4 fp)" by simp
  have "[] \<in> set (m_star is_digit (drop 4 fp @ []))"
    using assms(3) by (intro m_star_accepts) (auto simp: list_all_iff dest: in_set_dropD)
  then have 4: "[] \<in> set (m_star is_digit (drop 4 fp))" by simp
  show ?thesis unfolding full_match_def decimal_4plus_def using 1 2 3 4 by auto
qed

lemma decimal_4plus_shape:
  assumes "full_match (decimal_4plus s)"
  shows "\<exists>ip fp. s = ip @ CHR ''.'' # fp \<and> ip \<noteq> [] \<and> list_all is_digit ip
           \<and> list_all is_digit fp \<and> 4 \<le> length fp"
proof -
  from assms obtain r1 r2 r3 where
    a: "r1 \<in> set (m_plus is_digit s)" "r2 \<in> set (m_char (\<lambda>c. c = CHR ''.'') r1)"
       "r3 \<in> set (m_rep is_digit 4 4 r2)" "[] \<in> set (m_star is_digit r3)"
    unfolding full_match_def decimal_4plus_def by auto
  obtain u1 where u1: "s = u1 @ r1" "u1 \<noteq> []" "list_all is_digit u1"
    using m_plus_consumes[OF a(1)] by blast
  have r1: "r1 = CHR ''.'' # r2" using a(2) by (simp add: m_char_iff)
  obtain u3 where u3: "r2 = u3 @ r3" "list_all is_digit u3" "4 \<le> length u3"
    using m_rep_consumes[OF a(3)] by blast
  obtain u4 where u4: "r3 = u4 @ []" "list_all is_digit u4"
    using m_star_consumes[OF a(4)] by blast
  show ?thesis
    using u1 r1 u3 u4 by (intro exI[of _ u1] exI[of _ "u3 @ u4"]) simp
qed

lemma grouped_thousand_match:
  assumes "list_all is_digit ip" "1 \<le> length ip" "length ip \<le> 3" "list_all is_digit fp" "length fp = 3"
  shows "full_match (grouped_thousand (ip @ CHR ''.'' # fp))"
proof -
  have 1: "CHR ''.'' # fp \<in> set (m_rep is_digit 1 3 (ip @ CHR ''.'' # fp))"
    using assms(1,2,3) by (rule m_rep_accepts)
  have 2: "fp \<in> set (m_char (\<lambda>c. c = CHR ''.'') (CHR ''.'' # fp))" by (simp add: m_char_iff)
  have "[] \<in> set (m_rep is_digit 3 3 (fp @ []))"
    using assms(4,5) by (intro m_rep_accepts) auto
  then have 3: "[] \<in> set (m_rep is_digit 3 3 fp)" by simp
  show ?thesis unfolding full_match_def grouped_thousand_def using 1 2 3 by auto
qed

lemma grouped_thousand_shape:
  assumes "full_match (grouped_thousand s)"
  shows "\<exists>ip fp. s = ip @ CHR ''.'' # fp \<and> 1 \<le> length ip \<and> length ip \<le> 3
           \<and> list_all is_digit ip \<and> list_all is_digit fp \<and> length fp = 3"
proof -
  from assms obtain r1 r2 where
    a: "r1 \<in> set (m_rep is_digit 1 3 s)" "r2 \<in> set (m_char (\<lambda>c. c = CHR ''.'') r1)"
       "[] \<in> set (m_rep is_digit 3 3 r2)"
    unfolding full_match_def grouped_thousand_def by auto
  obtain u1 where u1: "s = u1 @ r1" "list_all is_digit u1" "1 \<le> length u1" "length u1 \<le> 3"
    using m_rep_consumes[OF a(1)] by blast
  have r1: "r1 = CHR ''.'' # r2" using a(2) by (simp add: m_char_iff)
  obtain u3 where u3: "r2 = u3 @ []" "list_all is_digit u3" "3 \<le> length u3" "length u3 \<le> 3"
    using m_rep_consumes[OF a(3)] by blast
  show ?thesis
    using u1 r1 u3 by (intro exI[of _ u1] exI[of _ u3]) simp
qed

text \<open>On digits, a dot and digits the two tests say what they are written to say.\<close>

lemma decimal_4plus_iff:
  assumes "list_all is_digit ip" "list_all is_digit fp"
  shows "full_match (decimal_4plus (ip @ CHR ''.'' # fp)) \<longleftrightarrow> ip \<noteq> [] \<and> 4 \<le> length fp"
proof
  assume "full_match (decimal_4plus (ip @ CHR ''.'' # fp))"
  then obtain u w where uw: "ip @ CHR ''.'' # fp = u @ CHR ''.'' # w" "u \<noteq> []"
      "list_all is_digit u" "4 \<le> length w"
    using decimal_4plus_shape by blast
  have "ip = u \<and> CHR ''.'' = CHR ''.'' \<and> fp = w"
    using assms(1) uw(3) not_digit(1) not_digit(1) uw(1) by (rule digits_prefix_unique)
  then show "ip \<noteq> [] \<and> 4 \<le> length fp" using uw by simp
next
  assume "ip \<noteq> [] \<and> 4 \<le> length fp"
  then show "full_match (decimal_4plus (ip @ CHR ''.'' # fp))"
    using assms decimal_4plus_match by blast
qed

lemma grouped_thousand_iff:
  assumes "list_all is_digit ip" "list_all is_digit fp"
  shows "full_match (grouped_thousand (ip @ CHR ''.'' # fp))
           \<longleftrightarrow> 1 \<le> length ip \<and> length ip \<le> 3 \<and> length fp = 3"
proof
  assume "full_match (grouped_thousand (ip @ CHR ''.'' # fp))"
  then obtain u w where uw: "ip @ CHR ''.'' # fp = u @ CHR ''.'' # w" "1 \<le> length u"
      "length u \<le> 3" "list_all is_digit u" "length w = 3"
    using grouped_thousand_shape by blast
  have "ip = u \<and> CHR ''.'' = CHR ''.'' \<and> fp = w"
    using assms(1) uw(4) not_digit(1) not_digit(1) uw(1) by (rule digits_prefix_unique)
  then show "1 \<le> length ip \<and> length ip \<le> 3 \<and> length fp = 3" using uw by simp
next
  assume "1 \<le> length ip \<and> length ip \<le> 3 \<and> length fp = 3"
  then show "full_match (grouped_thousand (ip @ CHR ''.'' # fp))"
    using assms grouped_thousand_match by blast
qed

lemma no_dot_no_shape:
  assumes "CHR ''.'' \<notin> set s"
  shows "\<not> full_match (decimal_4plus s)" "\<not> full_match (grouped_thousand s)"
  using assms decimal_4plus_shape grouped_thousand_shape by fastforce+

lemma float_prefix_decimal:
  assumes "list_all is_digit ip" "list_all is_digit fp"
  shows "float_prefix (ip @ CHR ''.'' # fp) = (ip, fp)"
proof -
  let ?s = "ip @ CHR ''.'' # fp"
  have "\<not> is_space (hd ?s)"
    using assms(1) by (cases ip) (auto simp: dot_not_space digit_not_space)
  then have t: "dropWhile is_space ?s = ?s" by (simp add: dropWhile_eq_self_iff)
  have tw: "takeWhile is_digit ?s = ip"
    using assms(1) by (simp add: takeWhile_tail not_digit list_all_iff)
  have dw: "dropWhile is_digit ?s = CHR ''.'' # fp"
    using assms(1) by (simp add: dropWhile_append3 not_digit list_all_iff)
  have fw: "takeWhile is_digit fp = fp" using assms(2) by (simp add: list_all_iff)
  show ?thesis unfolding float_prefix_def Let_def t tw dw by (simp add: fw)
qed

lemma float_prefix_digits:
  assumes "list_all is_digit ds"
  shows "float_prefix ds = (ds, [])"
proof -
  have "ds = [] \<or> \<not> is_space (hd ds)" using assms by (cases ds) (auto simp: digit_not_space)
  then have t: "dropWhile is_space ds = ds" by (simp add: dropWhile_eq_self_iff)
  have tw: "takeWhile is_digit ds = ds" using assms by (simp add: list_all_iff)
  have dw: "dropWhile is_digit ds = []" using assms by (simp add: list_all_iff)
  show ?thesis unfolding float_prefix_def Let_def t tw dw by simp
qed

lemma foldl_digits:
  "foldl (\<lambda>a d. 10 * a + digit_value d) a ds = a * 10 ^ length ds + numeral_value ds"
  by (induction ds arbitrary: a) (simp_all add: digit_value_def algebra_simps)

lemma digits_value_numeral: "digits_value ds = numeral_value ds"
  by (simp add: digits_value_def foldl_digits)

lemma parseFloat_decimal:
  "list_all is_digit ip \<Longrightarrow> list_all is_digit fp \<Longrightarrow> ip \<noteq> [] \<or> fp \<noteq> [] \<Longrightarrow>
   parseFloat (ip @ CHR ''.'' # fp) = decimal_value ip fp"
  by (auto simp: parseFloat_def float_prefix_decimal decimal_value_def digits_value_numeral)

lemma parseFloat_digits:
  "list_all is_digit ds \<Longrightarrow> ds \<noteq> [] \<Longrightarrow> parseFloat ds = decimal_value ds []"
  by (simp add: parseFloat_def float_prefix_digits decimal_value_def digits_value_numeral)

lemma remove_dots_digits: "list_all is_digit ds \<Longrightarrow> remove_dots ds = ds"
  unfolding remove_dots_def using not_digit(1) by (auto simp: filter_id_conv list_all_iff)

lemma replace_first_comma_none: "CHR '','' \<notin> set s \<Longrightarrow> replace_first_comma s = s"
  by (induction s) auto

lemma replace_first_comma_at:
  "CHR '','' \<notin> set x \<Longrightarrow> replace_first_comma (x @ CHR '','' # y) = x @ CHR ''.'' # y"
  by (induction x) auto

lemma digits_no_sep: "list_all is_digit ds \<Longrightarrow> CHR ''.'' \<notin> set ds \<and> CHR '','' \<notin> set ds"
  using not_digit by (auto simp: list_all_iff)

section \<open>ItemExtractor: the quantity of an OCR item block\<close>

text \<open>One lemma for each rule of the cascade, on texts of digits around one separator
  (for the first rule: digits and dots before the comma).\<close>

lemma rule_dot_and_comma:
  assumes body: "list_all (\<lambda>c. is_digit c \<or> c = CHR ''.'') body" "CHR ''.'' \<in> set body"
    and fp: "list_all is_digit fp" and ne: "remove_dots body \<noteq> [] \<or> fp \<noteq> []"
  shows "parseOCRQty (body @ CHR '','' # fp) = decimal_value (remove_dots body) fp"
proof -
  let ?s = "body @ CHR '','' # fp"
  have rb: "list_all is_digit (remove_dots body)"
    using body(1) by (auto simp: remove_dots_def list_all_iff)
  have nc: "CHR '','' \<notin> set (remove_dots body)" using rb digits_no_sep by blast
  have "remove_dots ?s = remove_dots body @ CHR '','' # remove_dots fp"
    by (simp add: remove_dots_def)
  then have "remove_dots ?s = remove_dots body @ CHR '','' # fp"
    using fp by (simp add: remove_dots_digits)
  then have "replace_first_comma (remove_dots ?s) = remove_dots body @ CHR ''.'' # fp"
    using nc by (simp add: replace_first_comma_at)
  moreover have "CHR ''.'' \<in> set ?s \<and> CHR '','' \<in> set ?s" using body(2) by simp
  ultimately have "normalizeQtyString ?s = remove_dots body @ CHR ''.'' # fp"
    by (simp add: normalizeQtyString_def)
  then show ?thesis using rb fp ne by (simp add: parseOCRQty_def parseFloat_decimal)
qed

lemma dot_only_no_comma:
  assumes "list_all is_digit ip" "list_all is_digit fp"
  shows "CHR '','' \<notin> set (ip @ CHR ''.'' # fp)"
  using assms digits_no_sep by auto

lemma rule_dot_decimal:
  assumes "list_all is_digit ip" "list_all is_digit fp" "ip \<noteq> [] \<or> fp \<noteq> []"
    and "\<not> (1 \<le> length ip \<and> length ip \<le> 3 \<and> length fp = 3)"
  shows "parseOCRQty (ip @ CHR ''.'' # fp) = decimal_value ip fp"
proof -
  let ?s = "ip @ CHR ''.'' # fp"
  have nc: "CHR '','' \<notin> set ?s" using assms(1,2) by (rule dot_only_no_comma)
  have g: "\<not> full_match (grouped_thousand ?s)"
    using assms(4) grouped_thousand_iff[OF assms(1,2)] by blast
  have "normalizeQtyString ?s = ?s"
    unfolding normalizeQtyString_def using nc g by (simp add: replace_first_comma_none)
  then show ?thesis using assms(1,2,3) by (simp add: parseOCRQty_def parseFloat_decimal)
qed

lemma rule_dot_thousands:
  assumes "list_all is_digit ip" "list_all is_digit fp"
    and "1 \<le> length ip" "length ip \<le> 3" "length fp = 3"
  shows "parseOCRQty (ip @ CHR ''.'' # fp) = decimal_value (ip @ fp) []"
proof -
  let ?s = "ip @ CHR ''.'' # fp"
  have nc: "CHR '','' \<notin> set ?s" using assms(1,2) by (rule dot_only_no_comma)
  have d: "\<not> full_match (decimal_4plus ?s)"
    using assms(5) decimal_4plus_iff[OF assms(1,2)] by simp
  have g: "full_match (grouped_thousand ?s)"
    using assms(3,4,5) grouped_thousand_iff[OF assms(1,2)] by blast
  have "remove_dots ?s = ip @ fp"
    using assms(1,2) remove_dots_digits by (simp add: remove_dots_def)
  then have "normalizeQtyString ?s = ip @ fp"
    unfolding normalizeQtyString_def using nc d g by simp
  moreover have "list_all is_digit (ip @ fp)" "ip @ fp \<noteq> []" using assms by auto
  ultimately show ?thesis by (simp add: parseOCRQty_def parseFloat_digits)
qed

lemma rule_comma_decimal:
  assumes "list_all is_digit ip" "list_all is_digit fp" "ip \<noteq> [] \<or> fp \<noteq> []"
  shows "parseOCRQty (ip @ CHR '','' # fp) = decimal_value ip fp"
proof -
  let ?s = "ip @ CHR '','' # fp"
  have nd: "CHR ''.'' \<notin> set ?s" using assms(1,2) digits_no_sep by auto
  have nc: "CHR '','' \<notin> set ip" using assms(1) digits_no_sep by blast
  have "normalizeQtyString ?s = ip @ CHR ''.'' # fp"
    unfolding normalizeQtyString_def using nd no_dot_no_shape[OF nd] nc
    by (simp add: replace_first_comma_at)
  then show ?thesis using assms by (simp add: parseOCRQty_def parseFloat_decimal)
qed

lemma float_prefix_examples:
  "map (\<lambda>s. float_prefix (normalizeQtyString s)) [''1.0000'', ''3.150,0000'', ''470,0000'']
     = [(''1'', ''0000''), (''3150'', ''0000''), (''470'', ''0000'')]"
  by code_simp

lemma digits_value_examples:
  "digits_value ''3150'' = 3150" "digits_value ''0000'' = 0" "digits_value ''1'' = 1"
  "digits_value ''470'' = 470"
  by code_simp+

lemma qtyPattern_example:
  "qtyPattern ''1 8479.903000 Tidak Japan (JP) BM: 5% DTG:100% 3.150,0000 Piece (PCE) 24.17''
     = Some (''3.150,0000'', ''PCE'')"
  by code_simp

lemma parseOCRQty_three:
  "parseOCRQty ''1.0000'' = Num 1 \<and> parseOCRQty ''3.150,0000'' = Num 3150
   \<and> parseOCRQty ''470,0000'' = Num 470"
  using float_prefix_examples by (simp add: parseOCRQty_def parseFloat_def digits_value_examples)

text \<open>
  C3. The quantity parser of an OCR item block maps \<open>1.0000\<close> to 1, \<open>3.150,0000\<close> to
  3150 and \<open>470,0000\<close> to 470, also when the text is read off a whole item block, and it
  follows the rules in their order, for all digit texts \<open>ip\<close> and \<open>fp\<close>:
  with a dot and a comma every dot is a thousands separator and the comma the decimal
  point; a dot before four or more digits is the decimal point; a dot between one to
  three digits and exactly three digits is a thousands separator; any other single dot is
  the decimal point; and without a dot a comma is the decimal point.
\<close>

theorem parseOCRQty_rules:
  "parseOCRQty ''1.0000'' = Num 1
   \<and> parseOCRQty ''3.150,0000'' = Num 3150
   \<and> parseOCRQty ''470,0000'' = Num 470
   \<and> map_option bc_qty
        (parseOCRItemText extractUraian 1 ''8479.903000''
           ''1 8479.903000 Tidak Japan (JP) BM: 5% DTG:100% 3.150,0000 Piece (PCE) 24.17'')
        = Some (Num 3150)
   \<and> (list_all is_digit ip \<and> list_all is_digit fp \<longrightarrow>
        (list_all (\<lambda>c. is_digit c \<or> c = CHR ''.'') body \<and> CHR ''.'' \<in> set body
           \<and> (filter (\<lambda>c. c \<noteq> CHR ''.'') body \<noteq> [] \<or> fp \<noteq> []) \<longrightarrow>
           parseOCRQty (body @ '','' @ fp) = decimal_value (filter (\<lambda>c. c \<noteq> CHR ''.'') body) fp)
        \<and> (ip \<noteq> [] \<and> 4 \<le> length fp \<longrightarrow>
             parseOCRQty (ip @ ''.'' @ fp) = decimal_value ip fp)
        \<and> (1 \<le> length ip \<and> length ip \<le> 3 \<and> length fp = 3 \<longrightarrow>
             parseOCRQty (ip @ ''.'' @ fp) = decimal_value (ip @ fp) [])
        \<and> ((ip \<noteq> [] \<or> fp \<noteq> []) \<and> \<not> (1 \<le> length ip \<and> length ip \<le> 3 \<and> length fp = 3) \<longrightarrow>
             parseOCRQty (ip @ ''.'' @ fp) = decimal_value ip fp)
        \<and> (ip \<noteq> [] \<or> fp \<noteq> [] \<longrightarrow>
             parseOCRQty (ip @ '','' @ fp) = decimal_value ip fp))"
proof -
  have item: "map_option bc_qty
        (parseOCRItemText extractUraian 1 ''8479.903000''
           ''1 8479.903000 Tidak Japan (JP) BM: 5% DTG:100% 3.150,0000 Piece (PCE) 24.17'')
        = Some (Num 3150)"
    using parseOCRQty_three by (simp add: parseOCRItemText_def qtyPattern_example Let_def)
  have rules: "list_all is_digit ip \<and> list_all is_digit fp \<longrightarrow>
        (list_all (\<lambda>c. is_digit c \<or> c = CHR ''.'') body \<and> CHR ''.'' \<in> set body
           \<and> (filter (\<lambda>c. c \<noteq> CHR ''.'') body \<noteq> [] \<or> fp \<noteq> []) \<longrightarrow>
           parseOCRQty (body @ '','' @ fp) = decimal_value (filter (\<lambda>c. c \<noteq> CHR ''.'') body) fp)
        \<and> (ip \<noteq> [] \<and> 4 \<le> length fp \<longrightarrow>
             parseOCRQty (ip @ ''.'' @ fp) = decimal_value ip fp)
        \<and> (1 \<le> length ip \<and> length ip \<le> 3 \<and> length fp = 3 \<longrightarrow>
             parseOCRQty (ip @ ''.'' @ fp) = decimal_value (ip @ fp) [])
        \<and> ((ip \<noteq> [] \<or> fp \<noteq> []) \<and> \<not> (1 \<le> length ip \<and> length ip \<le> 3 \<and> length fp = 3) \<longrightarrow>
             parseOCRQty (ip @ ''.'' @ fp) = decimal_value ip fp)
        \<and> (ip \<noteq> [] \<or> fp \<noteq> [] \<longrightarrow>
             parseOCRQty (ip @ '','' @ fp) = decimal_value ip fp)"
  proof (intro impI conjI)
    assume d: "list_all is_digit ip \<and> list_all is_digit fp"
    assume "list_all (\<lambda>c. is_digit c \<or> c = CHR ''.'') body \<and> CHR ''.'' \<in> set body
           \<and> (filter (\<lambda>c. c \<noteq> CHR ''.'') body \<noteq> [] \<or> fp \<noteq> [])"
    then show "parseOCRQty (body @ '','' @ fp) = decimal_value (filter (\<lambda>c. c \<noteq> CHR ''.'') body) fp"
      using d rule_dot_and_comma[of body fp] by (simp add: remove_dots_def)
  next
    assume d: "list_all is_digit ip \<and> list_all is_digit fp"
    assume "ip \<noteq> [] \<and> 4 \<le> length fp"
    then show "parseOCRQty (ip @ ''.'' @ fp) = decimal_value ip fp"
      using d rule_dot_decimal[of ip fp] by simp
  next
    assume d: "list_all is_digit ip \<and> list_all is_digit fp"
    assume "1 \<le> length ip \<and> length ip \<le> 3 \<and> length fp = 3"
    then show "parseOCRQty (ip @ ''.'' @ fp) = decimal_value (ip @ fp) []"
      using d rule_dot_thousands[of ip fp] by simp
  next
    assume d: "list_all is_digit ip \<and> list_all is_digit fp"
    assume "(ip \<noteq> [] \<or> fp \<noteq> []) \<and> \<not> (1 \<le> length ip \<and> length ip \<le> 3 \<and> length fp = 3)"
    then show "parseOCRQty (ip @ ''.'' @ fp) = decimal_value ip fp"
      using d rule_dot_decimal[of ip fp] by simp
  next
    assume d: "list_all is_digit ip \<and> list_all is_digit fp"
    assume "ip \<noteq> [] \<or> fp \<noteq> []"
    then show "parseOCRQty (ip @ '','' @ fp) = decimal_value ip fp"
      using d rule_comma_decimal[of ip fp] by simp
  qed
  show ?thesis using parseOCRQty_three item rules by (intro conjI) simp_all
qed

text \<open>The rules at the texts \<open>1.234.567,50\<close>, \<open>7.2500\<close>, \<open>12.345\<close>,
  \<open>1234.567\<close> and \<open>12,50\<close>.\<close>

lemma qty_witness_digits:
  "list_all is_digit ''50''" "list_all is_digit ''1234''"
  "list_all is_digit ''567''" "list_all is_digit ''12''" "list_all is_digit ''345''"
  "list_all is_digit ''7''" "list_all is_digit ''2500''"
  "list_all (\<lambda>c. is_digit c \<or> c = CHR ''.'') ''1.234.567''"
  "filter (\<lambda>c. c \<noteq> CHR ''.'') ''1.234.567'' = ''1234567''"
  by code_simp+

lemma qty_witness_values:
  "numeral_value ''1234567'' = 1234567" "numeral_value ''50'' = 50" "numeral_value ''1234'' = 1234"
  "numeral_value ''567'' = 567" "numeral_value ''12345'' = 12345" "numeral_value ''12'' = 12"
  "numeral_value ''7'' = 7" "numeral_value ''2500'' = 2500" "numeral_value [] = 0"
  by simp_all

theorem parseOCRQty_rules_witness:
  "parseOCRQty ''1.234.567,50'' = Num (1234567 + 1 / 2)
   \<and> parseOCRQty ''7.2500'' = Num (7 + 1 / 4)
   \<and> parseOCRQty ''12.345'' = Num 12345
   \<and> parseOCRQty ''1234.567'' = Num (1234 + 567 / 1000)
   \<and> parseOCRQty ''12,50'' = Num (12 + 1 / 2)"
proof -
  have a: "parseOCRQty (''1.234.567'' @ '','' @ ''50'') = decimal_value (filter (\<lambda>c. c \<noteq> CHR ''.'') ''1.234.567'') ''50''"
    and e: "parseOCRQty (''12'' @ '','' @ ''50'') = decimal_value ''12'' ''50''"
    using parseOCRQty_rules [where ip = "''12''" and fp = "''50''" and body = "''1.234.567''"]
      qty_witness_digits by simp_all
  have b: "parseOCRQty (''7'' @ ''.'' @ ''2500'') = decimal_value ''7'' ''2500''"
    using parseOCRQty_rules [where ip = "''7''" and fp = "''2500''" and body = "''1.234.567''"]
      qty_witness_digits by simp
  have c: "parseOCRQty (''12'' @ ''.'' @ ''345'') = decimal_value (''12'' @ ''345'') []"
    using parseOCRQty_rules [where ip = "''12''" and fp = "''345''" and body = "''1.234.567''"]
      qty_witness_digits by simp
  have d: "parseOCRQty (''1234'' @ ''.'' @ ''567'') = decimal_value ''1234'' ''567''"
    using parseOCRQty_rules [where ip = "''1234''" and fp = "''567''" and body = "''1.234.567''"]
      qty_witness_digits by simp
  show ?thesis using a b c d e by (simp add: decimal_value_def qty_witness_values qty_witness_digits)
qed

section \<open>ItemExtractor: the tariff code of an OCR item block\<close>


lemma normalizeHsCode_bracket: "normalizeHsCode (CHR ''['' # hsCode) = normalizeHsCode hsCode"
  by (simp add: normalizeHsCode_def)















section \<open>ItemExtractor: the two strategies\<close>

text \<open>Strategy A has no match exactly when the marker pattern matches at no position of
  the text.\<close>

lemma matchAll_marker_Nil_iff: "matchAll_marker 0 i t = [] \<longleftrightarrow> search marker_at t = None"
proof (induction t arbitrary: i)
  case Nil
  show ?case by (simp add: marker_at_def first_match_def m_plus_def m_char_def)
next
  case (Cons c cs)
  then show ?case by (auto split: option.splits)
qed

text \<open>
  The table section is found whenever either strategy has something to work on: a line
  of the OCR table matches \<open>itemLinePattern\<close> only if the pattern of
  \<open>findTableSection\<close> matches in the text, and the marker of Strategy A holds the keyword
  \<open>Pos Tarif/HS\<close>. A matcher that succeeds on a text succeeds on every longer text.
\<close>

lemma m_star_ext: "r \<in> set (m_star P x) \<Longrightarrow> r @ y \<in> set (m_star P (x @ y))"
proof (induction x)
  case Nil
  then show ?case using m_star_self[of y P] by simp
next
  case (Cons c cs)
  then show ?case using m_star_self[of "c # cs @ y" P] by (auto split: if_splits)
qed

lemma m_char_ext: "r \<in> set (m_char P x) \<Longrightarrow> r @ y \<in> set (m_char P (x @ y))"
  by (cases x) (auto simp: m_char_def split: if_splits)

lemma m_plus_ext: "r \<in> set (m_plus P x) \<Longrightarrow> r @ y \<in> set (m_plus P (x @ y))"
  unfolding m_plus_def using m_char_ext m_star_ext by fastforce

lemma m_rep_ext: "r \<in> set (m_rep P lo hi x) \<Longrightarrow> r @ y \<in> set (m_rep P lo hi (x @ y))"
proof (induction P lo hi x rule: m_rep.induct)
  case (1 P lo s)
  then show ?case by (auto split: if_splits)
next
  case (2 P lo hi)
  then show ?case using m_rep_self[of y P "Suc hi"] by (auto split: if_splits)
next
  case (3 P lo hi c cs)
  then show ?case by (auto split: if_splits)
qed

lemma m_opt_char_ext:
  "r \<in> set (m_opt (m_char P) x) \<Longrightarrow> (\<And>c. P c \<Longrightarrow> Q c) \<Longrightarrow> r @ y \<in> set (m_opt (m_char Q) (x @ y))"
  by (cases x) (auto simp: m_opt_def m_char_def split: if_splits)

lemma hs_dotted_ext: "r \<in> set (hs_dotted x) \<Longrightarrow> r @ y \<in> set (hs_dotted (x @ y))"
proof -
  assume "r \<in> set (hs_dotted x)"
  then obtain r1 r2 r3 r4 where
    a: "r1 \<in> set (m_rep is_digit 4 4 x)" "r2 \<in> set (m_opt (m_char is_dot_comma) r1)"
       "r3 \<in> set (m_rep is_digit 2 3 r2)" "r4 \<in> set (m_opt (m_char is_dot_comma) r3)"
       "r \<in> set (m_rep is_digit 3 4 r4)"
    by (auto simp: hs_dotted_def)
  have "r1 @ y \<in> set (m_rep is_digit 4 4 (x @ y))" using a(1) by (rule m_rep_ext)
  moreover have "r2 @ y \<in> set (m_opt (m_char is_dot_comma) (r1 @ y))" using a(2) by (rule m_opt_char_ext)
  moreover have "r3 @ y \<in> set (m_rep is_digit 2 3 (r2 @ y))" using a(3) by (rule m_rep_ext)
  moreover have "r4 @ y \<in> set (m_opt (m_char is_dot_comma) (r3 @ y))" using a(4) by (rule m_opt_char_ext)
  moreover have "r @ y \<in> set (m_rep is_digit 3 4 (r4 @ y))" using a(5) by (rule m_rep_ext)
  ultimately show ?thesis unfolding hs_dotted_def by auto
qed

lemma ten_digits_dotted:
  assumes "r \<in> set (m_rep is_digit 10 10 x)"
  shows "hs_dotted (x @ y) \<noteq> []"
proof -
  from assms obtain ds where ds: "x = ds @ r" "list_all is_digit ds" "length ds = 10"
    using m_rep_consumes[OF assms] by auto
  let ?a = "take 4 ds" and ?b = "take 3 (drop 4 ds)" and ?c = "drop 3 (drop 4 ds)"
  have split: "?a @ ?b @ ?c = ds" by (simp only: append_take_drop_id)
  have la: "list_all is_digit ?a" "list_all is_digit ?b" "list_all is_digit ?c"
    using ds(2) by (auto simp: list_all_iff dest: in_set_takeD in_set_dropD)
  let ?rest = "r @ y"
  have 1: "?b @ ?c @ ?rest \<in> set (m_rep is_digit 4 4 (?a @ ?b @ ?c @ ?rest))"
    using la ds(3) by (intro m_rep_accepts) auto
  have 2: "?b @ ?c @ ?rest \<in> set (m_opt (m_char is_dot_comma) (?b @ ?c @ ?rest))"
    by (simp add: m_opt_def)
  have 3: "?c @ ?rest \<in> set (m_rep is_digit 2 3 (?b @ ?c @ ?rest))"
    using la ds(3) by (intro m_rep_accepts) auto
  have 4: "?c @ ?rest \<in> set (m_opt (m_char is_dot_comma) (?c @ ?rest))"
    by (simp add: m_opt_def)
  have 5: "?rest \<in> set (m_rep is_digit 3 4 (?c @ ?rest))"
    using la ds(3) by (intro m_rep_accepts) auto
  have inside: "?rest \<in> set (hs_dotted (?a @ ?b @ ?c @ ?rest))"
    unfolding hs_dotted_def using 1 2 3 4 5 by auto
  have "(?a @ ?b @ ?c) @ ?rest = x @ y" by (simp only: split ds(1) append_assoc)
  then have "?a @ ?b @ ?c @ ?rest = x @ y" by (simp only: append_assoc)
  then have "?rest \<in> set (hs_dotted (x @ y))" using inside by (rule subst)
  then show ?thesis by auto
qed

lemma first_match_None_iff: "first_match rs = None \<longleftrightarrow> rs = []"
  by (cases rs) (auto simp: first_match_def)

lemma itemLine_imp_itemPattern:
  assumes "itemLinePattern x \<noteq> None"
  shows "itemPattern_at (x @ y) \<noteq> None"
proof -
  from assms obtain r0 r1 r2 r3 r4 where
    a: "r0 \<in> set (m_star is_pipe_space x)" "r1 \<in> set (m_plus is_digit r0)"
       "r2 \<in> set (m_plus is_space r1)" "r3 \<in> set (m_opt (m_char (\<lambda>c. c = CHR ''['')) r2)"
       "r4 \<in> set (hs_token r3)"
    unfolding itemLinePattern_def first_match_None_iff by fastforce
  have b0: "r0 @ y \<in> set (m_star is_pipe_space (x @ y))" using a(1) by (rule m_star_ext)
  have b1: "r1 @ y \<in> set (m_plus is_digit (r0 @ y))" using a(2) by (rule m_plus_ext)
  have b2: "r2 @ y \<in> set (m_plus is_space (r1 @ y))" using a(3) by (rule m_plus_ext)
  have b3: "r3 @ y \<in> set (m_opt (m_char (\<lambda>c. c = CHR ''['' \<or> c = CHR ''('')) (r2 @ y))"
    using a(4) by (rule m_opt_char_ext) simp
  have "hs_dotted (r3 @ y) \<noteq> []"
  proof -
    from a(5) consider "r4 \<in> set (hs_dotted r3)" | "r4 \<in> set (m_rep is_digit 10 10 r3)"
      by (auto simp: hs_token_def m_alts_def)
    then show ?thesis
    proof cases
      case 1 then show ?thesis using hs_dotted_ext[of r4 r3 y] by auto
    next
      case 2 then show ?thesis by (rule ten_digits_dotted)
    qed
  qed
  then obtain r5 where b4: "r5 \<in> set (hs_dotted (r3 @ y))" by (cases "hs_dotted (r3 @ y)") auto
  show ?thesis unfolding itemPattern_at_def first_match_None_iff using b0 b1 b2 b3 b4 by fastforce
qed

lemma search_suffix: "f s \<noteq> None \<Longrightarrow> search f (pre @ s) \<noteq> None"
proof (induction pre)
  case Nil then show ?case by (cases s) (auto split: option.splits)
next
  case (Cons c pre) then show ?case by (auto split: option.splits)
qed

lemma search_found: "search f t \<noteq> None \<Longrightarrow> \<exists>pre s. t = pre @ s \<and> f s \<noteq> None"
proof (induction t)
  case Nil then show ?case by simp
next
  case (Cons c cs)
  show ?case
  proof (cases "f (c # cs)")
    case None
    then have "search f cs \<noteq> None" using Cons.prems by simp
    then obtain pre s where "cs = pre @ s" "f s \<noteq> None" using Cons.IH by blast
    then show ?thesis by (intro exI[of _ "c # pre"] exI[of _ s]) simp
  next
    case (Some a)
    then show ?thesis by (intro exI[of _ "[]"] exI[of _ "c # cs"]) simp
  qed
qed

lemma join_contains: "l \<in> set ls \<Longrightarrow> \<exists>pre post. js_join sep ls = pre @ l @ post"
proof (induction ls)
  case Nil then show ?case by simp
next
  case (Cons a ls)
  show ?case
  proof (cases "l = a")
    case True
    show ?thesis
    proof (cases ls)
      case Nil then show ?thesis using True by (intro exI[of _ "[]"]) simp
    next
      case (Cons m ms)
      then show ?thesis using True by (intro exI[of _ "[]"] exI[of _ "sep @ js_join sep ls"]) simp
    qed
  next
    case False
    then have "l \<in> set ls" using Cons.prems by simp
    then obtain pre post where pp: "js_join sep ls = pre @ l @ post" using Cons.IH by blast
    then obtain m ms where "ls = m # ms" using \<open>l \<in> set ls\<close> by (cases ls) auto
    then show ?thesis using pp by (intro exI[of _ "a @ sep @ pre"] exI[of _ post]) simp
  qed
qed

lemma line_in_text: "l \<in> set (split_lines t) \<Longrightarrow> \<exists>pre post. pre @ l @ post = t"
proof -
  assume "l \<in> set (split_lines t)"
  then obtain pre post where "js_join [newline] (split_lines t) = pre @ l @ post"
    using join_contains by blast
  then have "pre @ l @ post = t" by (simp only: join_split)
  then show ?thesis by blast
qed

lemma trim_inside: "\<exists>a b. a @ trim l @ b = l"
proof -
  let ?m = "dropWhile is_space l"
  have "rev (takeWhile is_space (rev ?m) @ dropWhile is_space (rev ?m)) = rev (rev ?m)"
    by (simp only: takeWhile_dropWhile_id)
  then have "rev (dropWhile is_space (rev ?m)) @ rev (takeWhile is_space (rev ?m)) = ?m"
    by (simp only: rev_append rev_rev_ident)
  then have "trim l @ rev (takeWhile is_space (rev ?m)) = ?m" by (simp only: trim_def)
  then have "takeWhile is_space l @ trim l @ rev (takeWhile is_space (rev ?m)) = l"
    by (simp only: takeWhile_dropWhile_id)
  then show ?thesis by blast
qed

lemma ocr_table_items_line:
  "ocr_table_items parseBlock ls \<noteq> [] \<Longrightarrow> \<exists>l\<in>set ls. itemLinePattern (trim l) \<noteq> None"
  by (induction ls) (auto split: option.splits)

lemma ocr_table_items_gate:
  assumes "ocr_table_items parseBlock (split_lines t) \<noteq> []"
  shows "findTableSection t"
proof -
  from assms obtain l where l: "l \<in> set (split_lines t)" "itemLinePattern (trim l) \<noteq> None"
    using ocr_table_items_line by blast
  obtain pre post where t: "pre @ l @ post = t" using line_in_text[OF l(1)] by blast
  obtain a b where ab: "a @ trim l @ b = l" using trim_inside by blast
  have "itemPattern_at (trim l @ (b @ post)) \<noteq> None" using l(2) by (rule itemLine_imp_itemPattern)
  then have found: "search itemPattern_at ((pre @ a) @ (trim l @ (b @ post))) \<noteq> None"
    by (rule search_suffix)
  have "pre @ (a @ trim l @ b) @ post = t" by (simp only: ab t)
  then have "(pre @ a) @ (trim l @ (b @ post)) = t" by (simp only: append_assoc)
  then have "search itemPattern_at t \<noteq> None" using found by (rule subst)
  then show ?thesis by (simp add: findTableSection_def)
qed

lemma m_star_suffix: "r \<in> set (m_star P s) \<Longrightarrow> \<exists>u. s = u @ r"
  by (induction s) (auto split: if_splits intro: exI[of _ "[]"]) 

lemma m_plus_suffix: "r \<in> set (m_plus P s) \<Longrightarrow> \<exists>u. s = u @ r"
proof -
  assume "r \<in> set (m_plus P s)"
  then obtain c cs where "s = c # cs" "r \<in> set (m_star P cs)"
    by (cases s) (auto simp: m_plus_def m_char_def split: if_splits)
  then show ?thesis using m_star_suffix[of r P cs] by (metis append_Cons)
qed

lemma includes_str_prefix: "take (length w) s = w \<Longrightarrow> includes_str s w"
  by (cases s) auto

lemma includes_str_inside: "includes_str (pre @ w @ post) w"
proof (induction pre)
  case Nil show ?case by (rule includes_str_prefix) simp
next
  case (Cons c pre) then show ?case by simp
qed

lemma m_lit_consumes: "r \<in> set (m_lit w s) \<Longrightarrow> s = w @ r"
  by (auto simp: m_lit_def split: if_splits) (metis append_take_drop_id)

lemma includes_str_append_left: "includes_str s w \<Longrightarrow> includes_str (pre @ s) w"
  by (induction pre) auto

lemma marker_parts_include:
  assumes "r1 \<in> set (m_plus P s)" "r2 \<in> set (m_plus Q r1)" "r3 \<in> set (m_lit w r2)"
  shows "includes_str s w"
proof -
  obtain u1 where u1: "s = u1 @ r1" using m_plus_suffix[OF assms(1)] by blast
  obtain u2 where u2: "r1 = u2 @ r2" using m_plus_suffix[OF assms(2)] by blast
  have r2: "r2 = w @ r3" using assms(3) by (rule m_lit_consumes)
  have "includes_str ((u1 @ u2) @ w @ r3) w" by (rule includes_str_inside)
  then show ?thesis by (simp add: u1 u2 r2)
qed

lemma marker_at_keyword: "marker_at s \<noteq> None \<Longrightarrow> includes_str s ''Pos Tarif/HS''"
proof -
  assume "marker_at s \<noteq> None"
  then obtain r1 r2 r3 where
    "r1 \<in> set (m_plus is_digit s)" "r2 \<in> set (m_plus is_space r1)"
    "r3 \<in> set (m_lit ''Pos Tarif/HS'' r2)"
    unfolding marker_at_def first_match_None_iff by fastforce
  then show ?thesis by (rule marker_parts_include)
qed

lemma markers_gate:
  assumes "matchAll_marker 0 0 t \<noteq> []"
  shows "findTableSection t"
proof -
  have "search marker_at t \<noteq> None" using assms by (simp add: matchAll_marker_Nil_iff)
  from search_found[OF this] obtain pre s where ps: "t = pre @ s" "marker_at s \<noteq> None" by blast
  have "includes_str s ''Pos Tarif/HS''" using ps(2) by (rule marker_at_keyword)
  then have "includes_str (pre @ s) ''Pos Tarif/HS''" by (rule includes_str_append_left)
  then have inc: "includes_str t ''Pos Tarif/HS''" by (simp only: ps(1))
  have "''Pos Tarif/HS'' \<in> set table_keywords" by (simp add: table_keywords_def)
  then have "filter (includes_str t) table_keywords \<noteq> []"
    using inc unfolding filter_empty_conv by blast
  then show ?thesis by (simp add: findTableSection_def)
qed

text \<open>
  C6. \<open>parseItems\<close> returns exactly when the table section is found. When it returns
  and Strategy A has no match, the OCR table strategy was run on the same text (the log
  line of its start was written during the call) and the items are the ones it found.
  When Strategy A has a match, the OCR table strategy was not run and the items are
  those of the marker blocks. When the table section is not found, \<open>parseItems\<close> throws
  before either strategy; on such a text Strategy A has no match and the OCR table
  strategy finds no item, so the error stands for no item that a strategy would have
  found.
\<close>

theorem parseItems_fallback:
  "(\<not> findTableSection (fullText this) \<longrightarrow>
      parseItems parseItemText parseBlock this = Inl TableSectionNotFound
      \<and> matchAll_marker 0 0 (fullText this) = []
      \<and> ocr_table_items parseBlock (split_lines (fullText this)) = [])
   \<and> (findTableSection (fullText this) \<longrightarrow>
        (\<exists>this'. parseItems parseItemText parseBlock this = Inr this'
           \<and> fullText this' = fullText this
           \<and> (if matchAll_marker 0 0 (fullText this) = []
               then TryingOCRTable \<in> set (drop (length (log_lines this)) (log_lines this'))
                    \<and> items this' = ocr_table_items parseBlock (split_lines (fullText this))
               else TryingOCRTable \<notin> set (drop (length (log_lines this)) (log_lines this'))
                    \<and> items this' =
                        List.map_filter (\<lambda>(seri, itemText). parseItemText seri itemText)
                          (item_texts (fullText this) (matchAll_marker 0 0 (fullText this))))))"
proof (intro conjI impI)
  assume gate: "\<not> findTableSection (fullText this)"
  show "parseItems parseItemText parseBlock this = Inl TableSectionNotFound"
    using gate by (simp add: parseItems_def)
  show "matchAll_marker 0 0 (fullText this) = []"
    using gate markers_gate by blast
  show "ocr_table_items parseBlock (split_lines (fullText this)) = []"
    using gate ocr_table_items_gate by blast
next
  assume "findTableSection (fullText this)"
  then show "\<exists>this'. parseItems parseItemText parseBlock this = Inr this'
           \<and> fullText this' = fullText this
           \<and> (if matchAll_marker 0 0 (fullText this) = []
               then TryingOCRTable \<in> set (drop (length (log_lines this)) (log_lines this'))
                    \<and> items this' = ocr_table_items parseBlock (split_lines (fullText this))
               else TryingOCRTable \<notin> set (drop (length (log_lines this)) (log_lines this'))
                    \<and> items this' =
                        List.map_filter (\<lambda>(seri, itemText). parseItemText seri itemText)
                          (item_texts (fullText this) (matchAll_marker 0 0 (fullText this))))"
    by (auto simp: parseItems_def parseItemsFromOCRTable_def Let_def)
qed

lemma ocr_table_text_facts:
  "findTableSection ocr_table_text" "matchAll_marker 0 0 ocr_table_text = []"
  by code_simp+

lemma digital_text_facts:
  "findTableSection digital_text" "matchAll_marker 0 0 digital_text = [(7, ''1'')]"
  by code_simp+

lemma no_table_text: "\<not> findTableSection ''hello''"
  by code_simp

theorem parseItems_fallback_witness:
  "findTableSection ocr_table_text \<and> matchAll_marker 0 0 ocr_table_text = []
   \<and> (\<exists>this'. parseItems (\<lambda>seri itemText. None) (parseOCRItemText (\<lambda>block. []))
                 (parser_of ocr_table_text) = Inr this'
         \<and> TryingOCRTable \<in> set (log_lines this')
         \<and> items this' = ocr_table_items (parseOCRItemText (\<lambda>block. []))
                            (split_lines ocr_table_text))
   \<and> findTableSection digital_text \<and> matchAll_marker 0 0 digital_text \<noteq> []
   \<and> (\<exists>this'. parseItems (\<lambda>seri itemText. None) (parseOCRItemText (\<lambda>block. []))
                 (parser_of digital_text) = Inr this'
         \<and> TryingOCRTable \<notin> set (log_lines this'))
   \<and> \<not> findTableSection ''hello''
   \<and> parseItems (\<lambda>seri itemText. None) (parseOCRItemText (\<lambda>block. [])) (parser_of ''hello'')
       = Inl TableSectionNotFound"
  using parseItems_fallback [of "parser_of ocr_table_text" "\<lambda>seri itemText. None"
      "parseOCRItemText (\<lambda>block. [])"]
    parseItems_fallback [of "parser_of digital_text" "\<lambda>seri itemText. None"
      "parseOCRItemText (\<lambda>block. [])"]
    parseItems_fallback [of "parser_of ''hello''" "\<lambda>seri itemText. None"
      "parseOCRItemText (\<lambda>block. [])"]
    ocr_table_text_facts digital_text_facts no_table_text
  by (auto simp: parser_of_def)

section \<open>OCROrchestrator: failures\<close>

text \<open>The chain fails as soon as one of its steps throws on the image the steps before
  it have made.\<close>

lemma enhance_step_throws:
  "enhance env before img = Inr img' \<Longrightarrow> sharp env step img' = Inl e \<Longrightarrow>
   enhance env (before @ step # after) img = Inl e"
  by (induction before arbitrary: img) (auto split: sum.splits)

text \<open>
  C10. When a step of the enhancement chain throws, \<open>preprocessImage\<close> returns the
  buffer it was given, and the page is then recognized from that buffer: with the
  language folder in place and the engine reading the original image, the page yields the
  text read. When no step throws it returns the enhanced image.
\<close>

theorem preprocessImage_falls_back:
  "(enhance env [Grayscale, Normalize, Sharpen, Threshold 128] imageBuffer = Inl e \<longrightarrow>
      preprocessImage env imageBuffer = imageBuffer
      \<and> (fs_throws env EnsureTessdata = None \<and> recognize env imageBuffer = Inr data
           \<and> page_content page = imageBuffer \<longrightarrow>
           processPageWithOCR env page = filteredText data))
   \<and> (enhance env [Grayscale, Normalize, Sharpen, Threshold 128] imageBuffer = Inr processed \<longrightarrow>
      preprocessImage env imageBuffer = processed)"
  by (auto simp: preprocessImage_def processPageWithOCR_def Let_def)

lemma enhance_env_sharp_fails:
  "enhance env_sharp_fails [Grayscale, Normalize, Sharpen, Threshold 128] [1, 2, 3]
     = Inl (Error ''unsupported image format'')"
  by (simp add: env_sharp_fails_def)

theorem preprocessImage_falls_back_witness:
  "enhance env_sharp_fails [Grayscale, Normalize, Sharpen, Threshold 128] [1, 2, 3]
     = Inl (Error ''unsupported image format'')
   \<and> preprocessImage env_sharp_fails [1, 2, 3] = [1, 2, 3]
   \<and> processPageWithOCR env_sharp_fails page_one = ''Kode ''"
  using preprocessImage_falls_back [where env = env_sharp_fails and imageBuffer = "[1, 2, 3]"
      and e = "Error ''unsupported image format''" and data = data_one and page = page_one]
    enhance_env_sharp_fails
  by (simp add: env_sharp_fails_def env_second_page_fails_def page_one_def filteredText_def
      data_one_def)

text \<open>The text put together from the batches, page by page: the fragment of every page,
  in page order, after a blank line unless the page is the first of its batch.\<close>

lemma joined_from_index:
  "joined_from i f xs =
     concat (map (\<lambda>j. (if (i + j) mod 3 = 0 then [] else [newline, newline]) @ f (xs ! j))
               [0..<length xs])"
proof (induction xs arbitrary: i)
  case Nil
  show ?case by simp
next
  case (Cons p ps)
  have "[0..<Suc (length ps)] = 0 # [Suc 0..<Suc (length ps)]"
    by (rule upt_conv_Cons) simp
  then have "[0..<length (p # ps)] = 0 # map Suc [0..<length ps]"
    by (simp only: map_Suc_upt length_Cons)
  then show ?case using Cons.IH[of "Suc i"] by (simp add: comp_def)
qed

lemma joined_from_append:
  "joined_from i f (a @ b) = joined_from i f a @ joined_from (i + length a) f b"
  by (induction a arbitrary: i) simp_all

lemma joined_from_shift: "joined_from (i + 3) f xs = joined_from i f xs"
proof (induction xs arbitrary: i)
  case Nil show ?case by simp
next
  case (Cons p ps)
  have "joined_from (Suc (i + 3)) f ps = joined_from (Suc i) f ps"
    using Cons.IH[of "Suc i"] by simp
  then show ?case by simp
qed

lemma join_short:
  "length xs \<le> 3 \<Longrightarrow> js_join [newline, newline] (map f xs) = joined_from 0 f xs"
proof -
  assume "length xs \<le> 3"
  then consider "xs = []" | a where "xs = [a]" | a b where "xs = [a, b]"
    | a b c where "xs = [a, b, c]"
    by (cases xs rule: list.exhaust; cases "tl xs"; cases "tl (tl xs)"; cases "tl (tl (tl xs))") auto
  then show ?thesis by cases simp_all
qed

lemma batches_joined:
  "concat (map (\<lambda>batch. js_join [newline, newline] (map f batch)) (batches 3 xs))
     = joined_from 0 f xs"
proof (induction "3::nat" xs rule: batches.induct)
  case (1 xs)
  show ?case
  proof (cases "xs = []")
    case True
    then show ?thesis by (simp add: batches.simps)
  next
    case False
    have ih: "concat (map (\<lambda>batch. js_join [newline, newline] (map f batch)) (batches 3 (drop 3 xs)))
                = joined_from 0 f (drop 3 xs)"
      using 1 False by simp
    have b: "batches 3 xs = take 3 xs # batches 3 (drop 3 xs)"
      using False by (subst batches.simps) simp
    have hd: "js_join [newline, newline] (map f (take 3 xs)) = joined_from 0 f (take 3 xs)"
      by (rule join_short) simp
    have "joined_from 0 f (take 3 xs @ drop 3 xs)
            = joined_from 0 f (take 3 xs) @ joined_from (0 + length (take 3 xs)) f (drop 3 xs)"
      by (rule joined_from_append)
    moreover have "joined_from (0 + length (take 3 xs)) f (drop 3 xs) = joined_from 0 f (drop 3 xs)"
    proof (cases "3 \<le> length xs")
      case True
      then have "length (take 3 xs) = 0 + 3" by simp
      then show ?thesis using joined_from_shift[of 0 f "drop 3 xs"] by simp
    next
      case False
      then show ?thesis by simp
    qed
    ultimately have "joined_from 0 f xs = joined_from 0 f (take 3 xs) @ joined_from 0 f (drop 3 xs)"
      by simp
    then show ?thesis using b ih hd by simp
  qed
qed

lemma assemble_index:
  "assemble env pngPages =
     concat (map (\<lambda>i. (if i mod 3 = 0 then [] else [newline, newline])
                        @ processPageWithOCR env (pngPages ! i))
               [0..<length pngPages])"
  unfolding assemble_def batches_joined joined_from_index by simp

lemma processPageWithOCR_fails:
  "recognize env (preprocessImage env (page_content p)) = Inl e \<Longrightarrow> processPageWithOCR env p = []"
  by (simp add: processPageWithOCR_def Let_def split: option.splits)

lemma extract_all_pages:
  assumes "pdfToPng env (pdfPath this) = Inr pngPages" "fs_throws env EnsureTempFolder = None"
    "fs_throws env RemoveTempFolder = None" "fs_throws env WriteOcrResult = None"
  shows "fst (extractTextWithOCR env this)
          = Inr (postProcessOCRText
                  (concat (map (\<lambda>i. (if i mod 3 = 0 then [] else [newline, newline])
                                     @ processPageWithOCR env (pngPages ! i))
                            [0..<length pngPages])))"
proof -
  have "fst (extractTextWithOCR env this) = Inr (postProcessOCRText (assemble env pngPages))"
    using assms by (simp add: extractTextWithOCR_def Let_def)
  then show ?thesis by (simp only: assemble_index)
qed

lemma extract_one_fails:
  assumes "pdfToPng env (pdfPath this) = Inr pngPages" "fs_throws env EnsureTempFolder = None"
    "fs_throws env RemoveTempFolder = None" "fs_throws env WriteOcrResult = None"
    "recognize env (preprocessImage env (page_content (pngPages ! k))) = Inl e"
  shows "fst (extractTextWithOCR env this)
          = Inr (postProcessOCRText
                  (concat (map (\<lambda>i. (if i mod 3 = 0 then [] else [newline, newline])
                                     @ (if i = k then [] else processPageWithOCR env (pngPages ! i)))
                            [0..<length pngPages])))"
proof -
  have "(\<lambda>i. (if i mod 3 = 0 then [] else [newline, newline])
                        @ (if i = k then [] else processPageWithOCR env (pngPages ! i)))
      = (\<lambda>i. (if i mod 3 = 0 then [] else [newline, newline])
                        @ processPageWithOCR env (pngPages ! i))"
    by (rule ext) (simp add: processPageWithOCR_fails[OF assms(5)])
  then show ?thesis using extract_all_pages[OF assms(1,2,3,4)] by (simp only:)
qed

text \<open>
  C8. A page whose recognition throws yields the empty text, as does one whose language
  folder cannot be made; a page that is recognized yields the words read. When the
  document is rasterized and the file system does not fail, the extraction returns the
  post-processed text that holds the fragment of every page in page order, each after a
  blank line unless it is the first of its batch of three, whatever the recognition did
  on any of them: a page that failed contributes the empty fragment and every other page
  its own. When the rasterizer throws, the extraction throws the error \<open>ocr_failed\<close> to its
  caller.
\<close>

theorem extractTextWithOCR_failures:
  "(recognize env (preprocessImage env (page_content page)) = Inl e \<longrightarrow>
      processPageWithOCR env page = [])
   \<and> (fs_throws env EnsureTessdata = Some e \<longrightarrow> processPageWithOCR env page = [])
   \<and> (fs_throws env EnsureTessdata = None
        \<and> recognize env (preprocessImage env (page_content page)) = Inr data \<longrightarrow>
        processPageWithOCR env page = filteredText data)
   \<and> (pdfToPng env (pdfPath this) = Inr pngPages \<and> fs_throws env EnsureTempFolder = None
        \<and> fs_throws env RemoveTempFolder = None \<and> fs_throws env WriteOcrResult = None \<longrightarrow>
        fst (extractTextWithOCR env this)
          = Inr (postProcessOCRText
                  (concat (map (\<lambda>i. (if i mod 3 = 0 then [] else [newline, newline])
                                     @ processPageWithOCR env (pngPages ! i))
                            [0..<length pngPages]))))
   \<and> (pdfToPng env (pdfPath this) = Inr pngPages \<and> fs_throws env EnsureTempFolder = None
        \<and> fs_throws env RemoveTempFolder = None \<and> fs_throws env WriteOcrResult = None
        \<and> k < length pngPages
        \<and> recognize env (preprocessImage env (page_content (pngPages ! k))) = Inl e \<longrightarrow>
        fst (extractTextWithOCR env this)
          = Inr (postProcessOCRText
                  (concat (map (\<lambda>i. (if i mod 3 = 0 then [] else [newline, newline])
                                     @ (if i = k then [] else processPageWithOCR env (pngPages ! i)))
                            [0..<length pngPages]))))
   \<and> (pdfToPng env (pdfPath this) = Inl e' \<longrightarrow> fst (extractTextWithOCR env this) = Inl ocr_failed)"
proof (intro conjI impI)
  assume "recognize env (preprocessImage env (page_content page)) = Inl e"
  then show "processPageWithOCR env page = []" by (rule processPageWithOCR_fails)
next
  assume "fs_throws env EnsureTessdata = Some e"
  then show "processPageWithOCR env page = []" by (simp add: processPageWithOCR_def Let_def)
next
  assume "fs_throws env EnsureTessdata = None
        \<and> recognize env (preprocessImage env (page_content page)) = Inr data"
  then show "processPageWithOCR env page = filteredText data"
    by (simp add: processPageWithOCR_def Let_def)
next
  assume "pdfToPng env (pdfPath this) = Inr pngPages \<and> fs_throws env EnsureTempFolder = None
        \<and> fs_throws env RemoveTempFolder = None \<and> fs_throws env WriteOcrResult = None"
  then show "fst (extractTextWithOCR env this)
          = Inr (postProcessOCRText
                  (concat (map (\<lambda>i. (if i mod 3 = 0 then [] else [newline, newline])
                                     @ processPageWithOCR env (pngPages ! i))
                            [0..<length pngPages])))"
    using extract_all_pages[of env this pngPages] by (elim conjE)
next
  assume "pdfToPng env (pdfPath this) = Inr pngPages \<and> fs_throws env EnsureTempFolder = None
        \<and> fs_throws env RemoveTempFolder = None \<and> fs_throws env WriteOcrResult = None
        \<and> k < length pngPages
        \<and> recognize env (preprocessImage env (page_content (pngPages ! k))) = Inl e"
  then show "fst (extractTextWithOCR env this)
          = Inr (postProcessOCRText
                  (concat (map (\<lambda>i. (if i mod 3 = 0 then [] else [newline, newline])
                                     @ (if i = k then [] else processPageWithOCR env (pngPages ! i)))
                            [0..<length pngPages])))"
    using extract_one_fails[of env this pngPages k e] by (elim conjE)
next
  assume "pdfToPng env (pdfPath this) = Inl e'"
  then show "fst (extractTextWithOCR env this) = Inl ocr_failed"
    by (simp add: extractTextWithOCR_def Let_def split: option.splits)
qed

text \<open>Of four pages the second fails: the third is still read, and the text of the
  document holds the first, third and fourth fragment.\<close>

lemma middle_page_fails_text:
  "postProcessOCRText
     (concat (map (\<lambda>i. (if i mod 3 = 0 then [] else [newline, newline])
                        @ processPageWithOCR env_middle_page_fails
                            ([page_one, page_two, page_three, page_four] ! i))
               [0..<length [page_one, page_two, page_three, page_four]]))
     = ''Kode Brg Seri''"
  by code_simp

lemma middle_page_fragments:
  "map (processPageWithOCR env_middle_page_fails) [page_one, page_two, page_three, page_four]
     = [''Kode '', [], ''Brg '', ''Seri'']"
  by code_simp

lemma middle_page_recognize:
  "recognize env_middle_page_fails (preprocessImage env_middle_page_fails (page_content page_two))
     = Inl (Error ''recognition failed'')"
  "recognize env_middle_page_fails (preprocessImage env_middle_page_fails (page_content page_three))
     = Inr data_three"
  by (simp_all add: env_middle_page_fails_def preprocessImage_def page_two_def page_three_def)

theorem extractTextWithOCR_failures_witness:
  "processPageWithOCR env_middle_page_fails page_two = []
   \<and> processPageWithOCR env_middle_page_fails page_three = ''Brg ''
   \<and> fst (extractTextWithOCR env_middle_page_fails (parser_of [])) = Inr ''Kode Brg Seri''
   \<and> fst (extractTextWithOCR env_no_raster (parser_of [])) = Inl ocr_failed"
proof -
  have 1: "processPageWithOCR env_middle_page_fails page_two = []"
    and 2: "fst (extractTextWithOCR env_middle_page_fails (parser_of [])) = Inr ''Kode Brg Seri''"
    using extractTextWithOCR_failures [where env = env_middle_page_fails and page = page_two
        and e = "Error ''recognition failed''" and this = "parser_of []"
        and pngPages = "[page_one, page_two, page_three, page_four]"]
      middle_page_recognize middle_page_fails_text
    by (simp_all add: env_middle_page_fails_def)
  have 3: "processPageWithOCR env_middle_page_fails page_three = ''Brg ''"
    using extractTextWithOCR_failures [where env = env_middle_page_fails and page = page_three
        and data = data_three] middle_page_recognize
    by (simp add: env_middle_page_fails_def filteredText_def data_three_def)
  have 4: "fst (extractTextWithOCR env_no_raster (parser_of [])) = Inl ocr_failed"
    using extractTextWithOCR_failures [where env = env_no_raster and this = "parser_of []"
        and e' = "Error ''Invalid PDF''"]
    by (simp add: env_no_raster_def env_second_page_fails_def)
  show ?thesis using 1 2 3 4 by simp
qed

end
